theory Spec2Isabelle
  imports Main "HOL-Library.AList" "HOL-Library.Multiset"
begin

section \<open>Data model\<close>

text \<open>
  The gateway is TypeScript. Its numbers are modelled as \<^typ>\<open>int\<close> (counters, budgets and
  clock readings in milliseconds), its strings as \<^typ>\<open>string\<close>, and every
  \<^verbatim>\<open>Map<string, V>\<close> as an association list in insertion order, read with
  \<^const>\<open>map_of\<close>, written with \<^const>\<open>AList.update\<close> (replace in place, or append a new
  key) and \<^const>\<open>AList.map_entry\<close> (mutate the object stored under a key).
\<close>

text \<open>\<^verbatim>\<open>interface Token\<close> of core/database.ts.\<close>

record Token =
  token_id :: int
  token_name :: string
  token :: string
  enabled :: bool
  createdAt :: string
  updatedAt :: string

text \<open>\<^verbatim>\<open>interface TokenUsage { current; max }\<close> of services/concurrency_manager.ts.\<close>

record TokenUsage =
  current :: int
  max_usage :: int

section \<open>ConcurrencyManager\<close>

record ConcurrencyManager =
  tokenUsage :: "(string \<times> TokenUsage) list"
  maxConcurrentPerToken :: int

text \<open>The state a freshly constructed manager has: an empty map and the default of 3.\<close>

definition new_ConcurrencyManager :: ConcurrencyManager where
  "new_ConcurrencyManager = \<lparr>tokenUsage = [], maxConcurrentPerToken = 3\<rparr>"

text \<open>
  \<^verbatim>\<open>initialize(tokens)\<close>: clear the map, then one \<^verbatim>\<open>set(token.token, {current: 0, max})\<close>
  per credential, in order. The key is the secret string \<^verbatim>\<open>token.token\<close>.
\<close>

fun initialize_loop :: "int \<Rightarrow> Token list \<Rightarrow> (string \<times> TokenUsage) list \<Rightarrow> (string \<times> TokenUsage) list" where
  "initialize_loop m [] us = us"
| "initialize_loop m (t # ts) us =
     initialize_loop m ts (AList.update (token t) \<lparr>current = 0, max_usage = m\<rparr> us)"

definition initialize :: "ConcurrencyManager \<Rightarrow> Token list \<Rightarrow> ConcurrencyManager" where
  "initialize cm tokens =
     cm\<lparr>tokenUsage := initialize_loop (maxConcurrentPerToken cm) tokens []\<rparr>"

definition canUseToken :: "ConcurrencyManager \<Rightarrow> string \<Rightarrow> bool" where
  "canUseToken cm t =
     (case map_of (tokenUsage cm) t of
        Some usage \<Rightarrow> current usage < max_usage usage
      | None \<Rightarrow> False)"

definition incrementUsage :: "ConcurrencyManager \<Rightarrow> string \<Rightarrow> ConcurrencyManager" where
  "incrementUsage cm t =
     (case map_of (tokenUsage cm) t of
        Some usage \<Rightarrow>
          cm\<lparr>tokenUsage := AList.map_entry t (\<lambda>u. u\<lparr>current := current u + 1\<rparr>) (tokenUsage cm)\<rparr>
      | None \<Rightarrow> cm)"

definition decrementUsage :: "ConcurrencyManager \<Rightarrow> string \<Rightarrow> ConcurrencyManager" where
  "decrementUsage cm t =
     (case map_of (tokenUsage cm) t of
        Some usage \<Rightarrow>
          if current usage > 0
          then cm\<lparr>tokenUsage := AList.map_entry t (\<lambda>u. u\<lparr>current := current u - 1\<rparr>) (tokenUsage cm)\<rparr>
          else cm
      | None \<Rightarrow> cm)"

definition getAvailableTokensCount :: "ConcurrencyManager \<Rightarrow> nat" where
  "getAvailableTokensCount cm =
     length (filter (\<lambda>(k, usage). current usage < max_usage usage) (tokenUsage cm))"

definition setMaxConcurrentPerToken :: "ConcurrencyManager \<Rightarrow> int \<Rightarrow> ConcurrencyManager" where
  "setMaxConcurrentPerToken cm m =
     cm\<lparr>maxConcurrentPerToken := m,
        tokenUsage := map (\<lambda>(k, usage). (k, usage\<lparr>max_usage := m\<rparr>)) (tokenUsage cm)\<rparr>"

definition getTokenUsage :: "ConcurrencyManager \<Rightarrow> string \<Rightarrow> TokenUsage option" where
  "getTokenUsage cm t = map_of (tokenUsage cm) t"

text \<open>
  What a caller of \<^verbatim>\<open>decrementUsage\<close> can observe besides the new state: the lines it
  writes to the console and the exception it throws. The method body contains neither a
  \<^verbatim>\<open>console\<close> call nor a \<^verbatim>\<open>throw\<close>, on any branch.
\<close>

record DecrementEffects =
  consoleLines :: "string list"
  thrown :: "string option"
  stateAfter :: ConcurrencyManager

definition decrementUsage_effects :: "ConcurrencyManager \<Rightarrow> string \<Rightarrow> DecrementEffects" where
  "decrementUsage_effects cm t =
     \<lparr>consoleLines = [], thrown = None, stateAfter = decrementUsage cm t\<rparr>"

text \<open>
  The check-and-increment of \<^verbatim>\<open>LoadBalancer.getToken\<close> (load_balancer.ts, the two lines
  \<^verbatim>\<open>if (await canUseToken(t)) { await incrementUsage(t); return t }\<close>) on one token string.
\<close>

definition acquire :: "ConcurrencyManager \<Rightarrow> string \<Rightarrow> bool \<times> ConcurrencyManager" where
  "acquire cm t = (if canUseToken cm t then (True, incrementUsage cm t) else (False, cm))"

fun acquire_times :: "nat \<Rightarrow> ConcurrencyManager \<Rightarrow> string \<Rightarrow> bool list \<times> ConcurrencyManager" where
  "acquire_times 0 cm t = ([], cm)"
| "acquire_times (Suc n) cm t =
     (let (ok, cm1) = acquire cm t; (oks, cm2) = acquire_times n cm1 t in (ok # oks, cm2))"

section \<open>TokenManager\<close>

text \<open>
  The rotation cursor \<^verbatim>\<open>tokenIndex\<close> starts at 0 and is only ever assigned
  \<^verbatim>\<open>(tokenIndex + 1) % enabledTokens.length\<close>, so it is a natural number.
\<close>

record TokenManager =
  tokens :: "Token list"
  tokenIndex :: nat

definition loadTokens :: "TokenManager \<Rightarrow> Token list \<Rightarrow> TokenManager" where
  "loadTokens tm dbTokens = tm\<lparr>tokens := dbTokens\<rparr>"

definition getTokens :: "TokenManager \<Rightarrow> Token list" where
  "getTokens tm = tokens tm"

definition getNextToken :: "TokenManager \<Rightarrow> Token option \<times> TokenManager" where
  "getNextToken tm =
     (let enabledTokens = filter enabled (tokens tm) in
      if length enabledTokens = 0 then (None, tm)
      else (Some (enabledTokens ! (tokenIndex tm mod length enabledTokens)),
            tm\<lparr>tokenIndex := (tokenIndex tm + 1) mod length enabledTokens\<rparr>))"

definition getTokensCount :: "TokenManager \<Rightarrow> nat" where
  "getTokensCount tm = length (filter enabled (tokens tm))"

text \<open>\<^verbatim>\<open>k\<close> consecutive calls of \<^verbatim>\<open>getNextToken\<close>: what each returned, and the final state.\<close>

fun getNextToken_times :: "nat \<Rightarrow> TokenManager \<Rightarrow> Token option list \<times> TokenManager" where
  "getNextToken_times 0 tm = ([], tm)"
| "getNextToken_times (Suc k) tm =
     (let (r, tm1) = getNextToken tm; (rs, tm2) = getNextToken_times k tm1 in (r # rs, tm2))"

section \<open>LoadBalancer\<close>

record LoadBalancer =
  tokenManager :: TokenManager
  concurrencyManager :: ConcurrencyManager

text \<open>
  The \<^verbatim>\<open>for (let i = 0; i < tokens.length; i++)\<close> loop of \<^verbatim>\<open>getToken\<close>, with the number
  of iterations left as the first argument. \<^verbatim>\<open>null\<close> is \<^const>\<open>None\<close>.
\<close>

fun getToken_loop :: "nat \<Rightarrow> LoadBalancer \<Rightarrow> string option \<times> LoadBalancer" where
  "getToken_loop 0 lb = (None, lb)"
| "getToken_loop (Suc n) lb =
     (case getNextToken (tokenManager lb) of
        (None, tm1) \<Rightarrow> (None, lb\<lparr>tokenManager := tm1\<rparr>)
      | (Some t, tm1) \<Rightarrow>
          if canUseToken (concurrencyManager lb) (token t)
          then (Some (token t),
                lb\<lparr>tokenManager := tm1,
                   concurrencyManager := incrementUsage (concurrencyManager lb) (token t)\<rparr>)
          else getToken_loop n (lb\<lparr>tokenManager := tm1\<rparr>))"

definition getToken :: "LoadBalancer \<Rightarrow> string option \<times> LoadBalancer" where
  "getToken lb = getToken_loop (length (getTokens (tokenManager lb))) lb"

definition releaseToken :: "LoadBalancer \<Rightarrow> string \<Rightarrow> LoadBalancer" where
  "releaseToken lb t = lb\<lparr>concurrencyManager := decrementUsage (concurrencyManager lb) t\<rparr>"

subsection \<open>Sequences of calls\<close>

text \<open>
  The calls a client of the pool, the admission map and the dispatcher can make, and what a
  sequence of them does, one after the other, to the two shared objects.
\<close>

datatype operation =
    Initialize "Token list"
  | CanUseToken string
  | IncrementUsage string
  | DecrementUsage string
  | SetMaxConcurrentPerToken int
  | LoadTokens "Token list"
  | GetNextToken
  | GetToken
  | ReleaseToken string

fun apply_operation :: "LoadBalancer \<Rightarrow> operation \<Rightarrow> LoadBalancer" where
  "apply_operation lb (Initialize ts) =
     lb\<lparr>concurrencyManager := initialize (concurrencyManager lb) ts\<rparr>"
| "apply_operation lb (CanUseToken t) = lb"
| "apply_operation lb (IncrementUsage t) =
     lb\<lparr>concurrencyManager := incrementUsage (concurrencyManager lb) t\<rparr>"
| "apply_operation lb (DecrementUsage t) =
     lb\<lparr>concurrencyManager := decrementUsage (concurrencyManager lb) t\<rparr>"
| "apply_operation lb (SetMaxConcurrentPerToken m) =
     lb\<lparr>concurrencyManager := setMaxConcurrentPerToken (concurrencyManager lb) m\<rparr>"
| "apply_operation lb (LoadTokens ts) = lb\<lparr>tokenManager := loadTokens (tokenManager lb) ts\<rparr>"
| "apply_operation lb GetNextToken = lb\<lparr>tokenManager := snd (getNextToken (tokenManager lb))\<rparr>"
| "apply_operation lb GetToken = snd (getToken lb)"
| "apply_operation lb (ReleaseToken t) = releaseToken lb t"

fun run :: "LoadBalancer \<Rightarrow> operation list \<Rightarrow> LoadBalancer" where
  "run lb [] = lb"
| "run lb (x # xs) = run (apply_operation lb x) xs"

text \<open>The token strings handed out by the \<^const>\<open>GetToken\<close> calls of a sequence, in order.\<close>

fun admissions :: "LoadBalancer \<Rightarrow> operation list \<Rightarrow> string list" where
  "admissions lb [] = []"
| "admissions lb (x # xs) =
     (case x of
        GetToken \<Rightarrow> (case fst (getToken lb) of Some t \<Rightarrow> [t] | None \<Rightarrow> [])
      | _ \<Rightarrow> []) @ admissions (apply_operation lb x) xs"

fun is_Initialize :: "operation \<Rightarrow> bool" where
  "is_Initialize (Initialize ts) = True"
| "is_Initialize _ = False"

text \<open>The predicate of the data model, \<open>0 \<le> inUse \<le> budget\<close>, on every tracked entry.\<close>

definition usage_nonneg :: "ConcurrencyManager \<Rightarrow> bool" where
  "usage_nonneg cm = list_all (\<lambda>(k, usage). 0 \<le> current usage) (tokenUsage cm)"

definition usage_within_budget :: "ConcurrencyManager \<Rightarrow> bool" where
  "usage_within_budget cm =
     list_all (\<lambda>(k, usage). current usage \<le> max_usage usage) (tokenUsage cm)"

text \<open>
  The discipline under which the dispatcher uses the admission map: a bare
  \<^verbatim>\<open>incrementUsage(t)\<close> comes only after \<^verbatim>\<open>canUseToken(t)\<close> has answered true in the same
  state, and the budget is set to a non-negative number that no tracked counter exceeds.
\<close>

fun disciplined_call :: "LoadBalancer \<Rightarrow> operation \<Rightarrow> bool" where
  "disciplined_call lb (IncrementUsage t) = canUseToken (concurrencyManager lb) t"
| "disciplined_call lb (SetMaxConcurrentPerToken m) =
     (0 \<le> m \<and> list_all (\<lambda>(k, usage). current usage \<le> m) (tokenUsage (concurrencyManager lb)))"
| "disciplined_call lb _ = True"

fun disciplined :: "LoadBalancer \<Rightarrow> operation list \<Rightarrow> bool" where
  "disciplined lb [] = True"
| "disciplined lb (x # xs) = (disciplined_call lb x \<and> disciplined (apply_operation lb x) xs)"

text \<open>The upper bound together with a non-negative default budget for later \<^verbatim>\<open>initialize\<close> calls.\<close>

definition budget_ok :: "ConcurrencyManager \<Rightarrow> bool" where
  "budget_ok cm \<longleftrightarrow> usage_within_budget cm \<and> 0 \<le> maxConcurrentPerToken cm"

text \<open>A credential row with the given id, secret and enabled flag, for concrete pools.\<close>

definition mk_token :: "int \<Rightarrow> string \<Rightarrow> bool \<Rightarrow> Token" where
  "mk_token i s e =
     \<lparr>token_id = i, token_name = [], token = s, enabled = e, createdAt = [], updatedAt = []\<rparr>"

section \<open>FileCache\<close>

text \<open>\<^verbatim>\<open>interface CacheEntry { path; url; timestamp; accessCount }\<close> of services/file_cache.ts.\<close>

record CacheEntry =
  path :: string
  url :: string
  timestamp :: int
  accessCount :: int

text \<open>The two settings of the global \<^verbatim>\<open>config\<close> object that the cache reads.\<close>

record Config =
  cacheEnabled :: bool
  cacheTimeout :: int

record FileCache =
  cacheMap :: "(string \<times> CacheEntry) list"
  isDenoDeploy :: bool

text \<open>
  The cache together with the storage it writes to: the files that exist (path and bytes)
  and whether \<^verbatim>\<open>Deno.writeFile\<close> into the cache directory succeeds. \<^verbatim>\<open>Deno.stat(p)\<close>
  resolves exactly when \<open>p\<close> is among the files; \<^verbatim>\<open>Deno.remove(p)\<close> deletes it, and its
  failure on a missing file is caught by the callers.
\<close>

record CacheWorld =
  cache :: FileCache
  files :: "(string \<times> nat list) list"
  writable :: bool

datatype cache_error = WriteFileFailed

text \<open>The template literal \<^verbatim>\<open>${Date.now()}\<close>: the decimal digits of an integer.\<close>

fun decimal :: "nat \<Rightarrow> string" where
  "decimal n =
     (if n < 10 then [char_of (48 + n)] else decimal (n div 10) @ [char_of (48 + n mod 10)])"

declare decimal.simps [simp del]

definition number_string :: "int \<Rightarrow> string" where
  "number_string n = (if n < 0 then CHR ''-'' # decimal (nat (- n)) else decimal (nat n))"

text \<open>\<^verbatim>\<open>key.replace(/[^a-zA-Z0-9]/g, "_")\<close>, on keys made of one-byte characters.\<close>

definition is_alnum :: "char \<Rightarrow> bool" where
  "is_alnum c =
     (let n = (of_char c :: nat) in
      (97 \<le> n \<and> n \<le> 122) \<or> (65 \<le> n \<and> n \<le> 90) \<or> (48 \<le> n \<and> n \<le> 57))"

definition sanitize :: "string \<Rightarrow> string" where
  "sanitize key = map (\<lambda>c. if is_alnum c then c else CHR ''_'') key"

text \<open>
  \<^verbatim>\<open>get(key)\<close>, with the reading of \<^verbatim>\<open>Date.now()\<close> as the argument \<open>now\<close>. The entry
  object is mutated in place (\<^verbatim>\<open>entry.accessCount++\<close>) before the file is looked for.
\<close>

definition get_cache :: "Config \<Rightarrow> int \<Rightarrow> string \<Rightarrow> CacheWorld \<Rightarrow> string option \<times> CacheWorld" where
  "get_cache cfg now key w =
     (if \<not> cacheEnabled cfg \<or> isDenoDeploy (cache w) then (None, w)
      else
        case map_of (cacheMap (cache w)) key of
          None \<Rightarrow> (None, w)
        | Some entry \<Rightarrow>
            let timeoutMs = cacheTimeout cfg * 1000 in
            if now - timestamp entry > timeoutMs
            then (None,
                  w\<lparr>cache := (cache w)\<lparr>cacheMap := AList.delete key (cacheMap (cache w))\<rparr>,
                    files := AList.delete (path entry) (files w)\<rparr>)
            else
              let entry1 = entry\<lparr>accessCount := accessCount entry + 1\<rparr>;
                  map1 = AList.update key entry1 (cacheMap (cache w))
              in if map_of (files w) (path entry1) \<noteq> None
                 then (Some (path entry1), w\<lparr>cache := (cache w)\<lparr>cacheMap := map1\<rparr>\<rparr>)
                 else (None, w\<lparr>cache := (cache w)\<lparr>cacheMap := AList.delete key map1\<rparr>\<rparr>))"

text \<open>
  \<^verbatim>\<open>set(key, url, data)\<close>. It reads the clock twice, for the file name (\<open>nowName\<close>) and
  for the entry (\<open>nowStamp\<close>); \<open>cwd\<close> is \<^verbatim>\<open>Deno.cwd()\<close>, joined with plain separators.
  A failing \<^verbatim>\<open>Deno.writeFile\<close> is not caught: the call rejects before the map is touched.
\<close>

definition set_cache ::
  "Config \<Rightarrow> string \<Rightarrow> int \<Rightarrow> int \<Rightarrow> string \<Rightarrow> string \<Rightarrow> nat list \<Rightarrow> CacheWorld
     \<Rightarrow> cache_error + (string \<times> CacheWorld)" where
  "set_cache cfg cwd nowName nowStamp key u data w =
     (if \<not> cacheEnabled cfg \<or> isDenoDeploy (cache w) then Inr ([], w)
      else
        let filename = sanitize key @ ''_'' @ number_string nowName;
            p = cwd @ ''/cache/'' @ filename
        in if \<not> writable w then Inl WriteFileFailed
           else Inr (p,
                  w\<lparr>files := AList.update p data (files w),
                    cache := (cache w)\<lparr>cacheMap :=
                      AList.update key
                        \<lparr>path = p, url = u, timestamp = nowStamp, accessCount = 1\<rparr>
                        (cacheMap (cache w))\<rparr>\<rparr>))"

record CacheStats =
  stats_enabled :: bool
  stats_entries :: nat
  stats_size :: int
  stats_timeout :: int

definition getCacheStats :: "Config \<Rightarrow> FileCache \<Rightarrow> CacheStats" where
  "getCacheStats cfg fc =
     \<lparr>stats_enabled = cacheEnabled cfg, stats_entries = length (cacheMap fc),
      stats_size = 0, stats_timeout = cacheTimeout cfg\<rparr>"

section \<open>GenerationHandler\<close>

subsection \<open>Requests, the model catalog and the persistence port\<close>

record ContentPart =
  part_type :: string
  part_text :: "string option"
  image_url :: "string option"
  video_url :: "string option"

datatype Content = Text string | Parts "ContentPart list"

record ChatMessage =
  role :: string
  content :: Content

record ChatCompletionRequest =
  model :: string
  messages :: "ChatMessage list"
  stream :: "bool option"

text \<open>
  JavaScript truthiness of a \<^verbatim>\<open>string | null | undefined\<close>: \<^verbatim>\<open>null\<close>, \<^verbatim>\<open>undefined\<close> and the
  empty string are falsy, every other string is truthy.
\<close>

definition truthy :: "string option \<Rightarrow> bool" where
  "truthy v = (case v of None \<Rightarrow> False | Some x \<Rightarrow> x \<noteq> [])"

record ParsedRequest =
  prompt :: string
  imageData :: "string option"
  videoData :: "string option"

fun parse_parts :: "ContentPart list \<Rightarrow> ParsedRequest \<Rightarrow> ParsedRequest" where
  "parse_parts [] acc = acc"
| "parse_parts (part # rest) acc =
     parse_parts rest
       (if part_type part = ''text''
        then acc\<lparr>prompt := prompt acc @ (case part_text part of Some x \<Rightarrow> x | None \<Rightarrow> [])\<rparr>
        else if part_type part = ''image_url'' \<and> truthy (image_url part)
        then acc\<lparr>imageData := image_url part\<rparr>
        else if part_type part = ''video_url'' \<and> truthy (video_url part)
        then acc\<lparr>videoData := video_url part\<rparr>
        else acc)"

text \<open>
  \<^verbatim>\<open>parseRequest\<close> reads the last message. With no message at all,
  \<^verbatim>\<open>request.messages[-1]\<close> is \<^verbatim>\<open>undefined\<close> and reading its \<^verbatim>\<open>content\<close> throws a TypeError.
\<close>

definition parseRequest :: "ChatCompletionRequest \<Rightarrow> string + ParsedRequest" where
  "parseRequest request =
     (if messages request = [] then Inl ''TypeError: message is undefined''
      else
        case content (last (messages request)) of
          Text x \<Rightarrow> Inr \<lparr>prompt = x, imageData = None, videoData = None\<rparr>
        | Parts ps \<Rightarrow> Inr (parse_parts ps \<lparr>prompt = [], imageData = None, videoData = None\<rparr>))"

datatype MediaType = Image | Video

datatype Orientation = Landscape | Portrait

record ModelConfig =
  media_type :: MediaType
  width :: "int option"
  height :: "int option"
  orientation :: "Orientation option"
  nFrames :: "int option"

definition image_model :: "int \<Rightarrow> int \<Rightarrow> ModelConfig" where
  "image_model w h =
     \<lparr>media_type = Image, width = Some w, height = Some h, orientation = None, nFrames = None\<rparr>"

definition video_model :: "Orientation \<Rightarrow> int \<Rightarrow> ModelConfig" where
  "video_model ori n =
     \<lparr>media_type = Video, width = None, height = None, orientation = Some ori, nFrames = Some n\<rparr>"

definition MODEL_CONFIG :: "(string \<times> ModelConfig) list" where
  "MODEL_CONFIG =
     [(''sora-image'', image_model 360 360),
      (''sora-image-landscape'', image_model 540 360),
      (''sora-image-portrait'', image_model 360 540),
      (''sora-video-10s'', video_model Landscape 300),
      (''sora-video-15s'', video_model Landscape 450),
      (''sora-video-landscape-10s'', video_model Landscape 300),
      (''sora-video-landscape-15s'', video_model Landscape 450),
      (''sora-video-portrait-10s'', video_model Portrait 300),
      (''sora-video-portrait-15s'', video_model Portrait 450)]"

text \<open>
  \<^verbatim>\<open>MODEL_CONFIG[request.model]\<close> indexes a plain object, so besides the nine catalog
  entries it finds the members every object inherits; those are truthy, pass the
  \<^verbatim>\<open>!modelConfig\<close> test and have no \<^verbatim>\<open>type\<close> field.
\<close>

datatype ConfigLookup = Own ModelConfig | Inherited | Undefined

definition inherited_members :: "string list" where
  "inherited_members =
     [''constructor'', ''hasOwnProperty'', ''isPrototypeOf'', ''propertyIsEnumerable'',
      ''toLocaleString'', ''toString'', ''valueOf'', ''__defineGetter__'', ''__defineSetter__'',
      ''__lookupGetter__'', ''__lookupSetter__'']"

definition lookup_model :: "string \<Rightarrow> ConfigLookup" where
  "lookup_model name =
     (case map_of MODEL_CONFIG name of
        Some c \<Rightarrow> Own c
      | None \<Rightarrow> if name \<in> set inherited_members then Inherited else Undefined)"

record Task =
  task_id :: string
  task_type :: "MediaType option"
  task_status :: string
  task_requestId :: string
  task_model :: string
  task_prompt :: string
  task_imageData :: "string option"
  task_resultUrl :: "string option"
  task_error :: "string option"
  task_tokenUsed :: "string option"
  task_processingTime :: "int option"

record RequestLog =
  log_timestamp :: string
  log_requestId :: string
  log_model :: string
  log_status :: string
  log_tokenUsed :: "string option"
  log_processingTime :: int
  log_requestSize :: nat
  log_responseSize :: nat
  log_error :: "string option"

text \<open>
  The persistence port. The repository's \<^verbatim>\<open>Database\<close> methods only print a line where a
  real store would insert; the model keeps the rows they are handed, in call order.
\<close>

record Database =
  tasks :: "Task list"
  logs :: "RequestLog list"

definition addTask :: "Database \<Rightarrow> Task \<Rightarrow> Database" where
  "addTask db task = db\<lparr>tasks := tasks db @ [task]\<rparr>"

definition updateTaskStatus :: "Database \<Rightarrow> string \<Rightarrow> string \<Rightarrow> string option \<Rightarrow> Database" where
  "updateTaskStatus db taskId status resultUrl =
     db\<lparr>tasks := map (\<lambda>t. if task_id t = taskId
                            then t\<lparr>task_status := status, task_resultUrl := resultUrl\<rparr> else t)
                   (tasks db)\<rparr>"

definition addLog :: "Database \<Rightarrow> RequestLog \<Rightarrow> Database" where
  "addLog db entry = db\<lparr>logs := logs db @ [entry]\<rparr>"

subsection \<open>The request handler\<close>

text \<open>
  What the handler takes from outside: two clock readings, the id the store gives the new
  task, the length of \<^verbatim>\<open>JSON.stringify(request)\<close>, the ISO time of the log row, and the
  upstream client, which for an operation and a token either throws (\<^const>\<open>Inl\<close> the
  message) or returns the artifact URL.
\<close>

datatype UpstreamOp = GenerateImage | GenerateImageFromImage | GenerateVideo | GenerateVideoFromImage

record Env =
  startTime :: int
  endTime :: int
  newTaskId :: string
  requestJsonLength :: nat
  isoTimestamp :: string
  upstream :: "UpstreamOp \<Rightarrow> string \<Rightarrow> string + string"

text \<open>
  A yielded chunk, without its constant fields (\<^verbatim>\<open>object\<close>, the choice \<^verbatim>\<open>index\<close>) and its
  creation time; the three message texts are the three constructors of the content.
\<close>

datatype FrameContent = Processing | GenerationComplete string | ErrorMessage string

record Frame =
  frame_id :: string
  frame_model :: string
  delta_role :: "string option"
  delta_content :: FrameContent
  finish_reason :: "string option"

text \<open>
  \<^verbatim>\<open>handleChatCompletion\<close> is an async generator. Its consumer either asks for frames until
  the generator is done, or calls \<^verbatim>\<open>return()\<close> on receiving one of the two frames yielded
  inside the \<^verbatim>\<open>try\<close> block, which sends control to \<^verbatim>\<open>finally\<close>, as \<^verbatim>\<open>for await\<close> does when its
  body throws. A \<^verbatim>\<open>return()\<close> at the frame yielded inside \<^verbatim>\<open>catch\<close> continues like a
  \<^verbatim>\<open>next()\<close> and is not told apart.
\<close>

datatype Consumer = Drain | ReturnAtInitialFrame | ReturnAtFinalFrame

datatype TryExit = Completed | Threw string | Returned

record TryOutcome =
  try_frames :: "Frame list"
  try_exit :: TryExit
  try_resultUrl :: "string option"
  try_db :: Database

definition config_type :: "ConfigLookup \<Rightarrow> MediaType option" where
  "config_type found = (case found of Own c \<Rightarrow> Some (media_type c) | _ \<Rightarrow> None)"

definition select_upstream :: "MediaType option \<Rightarrow> string option \<Rightarrow> UpstreamOp" where
  "select_upstream ty img =
     (if ty = Some Image
      then (if truthy img then GenerateImageFromImage else GenerateImage)
      else (if truthy img then GenerateVideoFromImage else GenerateVideo))"

text \<open>The \<^verbatim>\<open>try\<close> block from the task row on.\<close>

definition run_task ::
  "Env \<Rightarrow> Consumer \<Rightarrow> ChatCompletionRequest \<Rightarrow> string \<Rightarrow> string \<Rightarrow> ParsedRequest
     \<Rightarrow> MediaType option \<Rightarrow> Database \<Rightarrow> TryOutcome" where
  "run_task env consumer request requestId tok parsed ty db =
     (let taskId = newTaskId env;
          db1 = addTask db
                  \<lparr>task_id = taskId, task_type = ty, task_status = ''pending'',
                   task_requestId = requestId, task_model = model request,
                   task_prompt = prompt parsed, task_imageData = imageData parsed,
                   task_resultUrl = None, task_error = None, task_tokenUsed = Some tok,
                   task_processingTime = None\<rparr>;
          db2 = updateTaskStatus db1 taskId ''processing'' None;
          initial = \<lparr>frame_id = taskId, frame_model = model request,
                     delta_role = Some ''assistant'', delta_content = Processing,
                     finish_reason = None\<rparr>
      in if consumer = ReturnAtInitialFrame
         then \<lparr>try_frames = [initial], try_exit = Returned, try_resultUrl = None, try_db = db2\<rparr>
         else
           case upstream env (select_upstream ty (imageData parsed)) tok of
             Inl msg \<Rightarrow>
               \<lparr>try_frames = [initial], try_exit = Threw msg, try_resultUrl = None, try_db = db2\<rparr>
           | Inr generationResult \<Rightarrow>
               \<lparr>try_frames =
                  [initial,
                   \<lparr>frame_id = taskId, frame_model = model request, delta_role = None,
                    delta_content = GenerationComplete generationResult,
                    finish_reason = Some ''stop''\<rparr>],
                try_exit = (if consumer = ReturnAtFinalFrame then Returned else Completed),
                try_resultUrl = Some generationResult,
                try_db = updateTaskStatus db2 taskId ''completed'' (Some generationResult)\<rparr>)"

text \<open>
  The whole \<^verbatim>\<open>try\<close> block. The test \<^verbatim>\<open>if (!tokenUsed)\<close> is a truthiness test on the
  \<^verbatim>\<open>string | null\<close> that \<^verbatim>\<open>getToken\<close> returned.
\<close>

definition try_block ::
  "Env \<Rightarrow> Consumer \<Rightarrow> ChatCompletionRequest \<Rightarrow> string \<Rightarrow> string option \<Rightarrow> Database
     \<Rightarrow> TryOutcome" where
  "try_block env consumer request requestId tokenUsed db =
     (case tokenUsed of
        None \<Rightarrow>
          \<lparr>try_frames = [], try_exit = Threw ''No available tokens'', try_resultUrl = None,
           try_db = db\<rparr>
      | Some tok \<Rightarrow>
          if \<not> truthy tokenUsed
          then \<lparr>try_frames = [], try_exit = Threw ''No available tokens'', try_resultUrl = None,
                try_db = db\<rparr>
          else
            case parseRequest request of
              Inl msg \<Rightarrow>
                \<lparr>try_frames = [], try_exit = Threw msg, try_resultUrl = None, try_db = db\<rparr>
            | Inr parsed \<Rightarrow>
                if lookup_model (model request) = Undefined
                then \<lparr>try_frames = [], try_exit = Threw (''Unknown model: '' @ model request),
                      try_resultUrl = None, try_db = db\<rparr>
                else run_task env consumer request requestId tok parsed
                       (config_type (lookup_model (model request))) db)"

text \<open>
  The result of one request: the frames yielded, what \<^verbatim>\<open>getToken\<close> returned, the arguments
  of the \<^verbatim>\<open>releaseToken\<close> calls made, and the dispatcher and the store afterwards.
\<close>

record HandlerOutcome =
  out_frames :: "Frame list"
  out_tokenUsed :: "string option"
  out_releaseCalls :: "string list"
  out_lb :: LoadBalancer
  out_db :: Database

definition handleChatCompletion ::
  "Env \<Rightarrow> Consumer \<Rightarrow> ChatCompletionRequest \<Rightarrow> string \<Rightarrow> LoadBalancer \<Rightarrow> Database
     \<Rightarrow> HandlerOutcome" where
  "handleChatCompletion env consumer request requestId lb db =
     (let tokenUsed = fst (getToken lb);
          lb1 = snd (getToken lb);
          t = try_block env consumer request requestId tokenUsed db;
          error = (case try_exit t of Threw msg \<Rightarrow> Some msg | _ \<Rightarrow> None);
          caught = (case try_exit t of
                      Threw msg \<Rightarrow>
                        [\<lparr>frame_id = requestId, frame_model = model request, delta_role = None,
                          delta_content = ErrorMessage msg, finish_reason = Some ''stop''\<rparr>]
                    | _ \<Rightarrow> []);
          releaseCalls = (case tokenUsed of
                            Some tok \<Rightarrow> if truthy tokenUsed then [tok] else []
                          | None \<Rightarrow> []);
          lb2 = (case tokenUsed of
                   Some tok \<Rightarrow> if truthy tokenUsed then releaseToken lb1 tok else lb1
                 | None \<Rightarrow> lb1);
          processingTime = endTime env - startTime env
      in \<lparr>out_frames = try_frames t @ caught,
          out_tokenUsed = tokenUsed,
          out_releaseCalls = releaseCalls,
          out_lb = lb2,
          out_db = addLog (try_db t)
                     \<lparr>log_timestamp = isoTimestamp env, log_requestId = requestId,
                      log_model = model request,
                      log_status = (if truthy error then ''failed'' else ''completed''),
                      log_tokenUsed = tokenUsed, log_processingTime = processingTime,
                      log_requestSize = requestJsonLength env,
                      log_responseSize = (case try_resultUrl t of
                                            Some r \<Rightarrow> length r | None \<Rightarrow> 0),
                      log_error = error\<rparr>\<rparr>)"

subsection \<open>Concrete pools, caches and requests\<close>

text \<open>Small states on which the general statements below are instantiated.\<close>

definition example_env :: Env where
  "example_env =
     \<lparr>startTime = 1000, endTime = 2500, newTaskId = ''task-1'', requestJsonLength = 80,
      isoTimestamp = ''2025-01-01T00:00:00.000Z'',
      upstream = (\<lambda>operation tok. Inr ''https://example.com/generated/1'')\<rparr>"

definition example_request :: ChatCompletionRequest where
  "example_request =
     \<lparr>model = ''sora-image'', messages = [\<lparr>role = ''user'', content = Text ''a cat''\<rparr>],
      stream = None\<rparr>"

definition empty_secret_pool :: LoadBalancer where
  "empty_secret_pool =
     \<lparr>tokenManager = \<lparr>tokens = [mk_token 1 [] True], tokenIndex = 0\<rparr>,
      concurrencyManager = initialize new_ConcurrencyManager [mk_token 1 [] True]\<rparr>"

definition pool_a :: LoadBalancer where
  "pool_a = \<lparr>tokenManager = \<lparr>tokens = [mk_token 1 ''a'' True], tokenIndex = 0\<rparr>,
             concurrencyManager = new_ConcurrencyManager\<rparr>"

definition cache_on :: Config where
  "cache_on = \<lparr>cacheEnabled = True, cacheTimeout = 3600\<rparr>"

definition empty_world :: CacheWorld where
  "empty_world = \<lparr>cache = \<lparr>cacheMap = [], isDenoDeploy = False\<rparr>, files = [], writable = True\<rparr>"

definition one_entry_world :: CacheWorld where
  "one_entry_world =
     \<lparr>cache = \<lparr>cacheMap = [(''k'', \<lparr>path = ''/app/cache/k_7'', url = ''u'', timestamp = 1000, accessCount = 1\<rparr>)],
               isDenoDeploy = False\<rparr>,
      files = [(''/app/cache/k_7'', [1, 2])], writable = True\<rparr>"

section \<open>Properties of the admission map\<close>

lemma getTokenUsage_incrementUsage:
  "getTokenUsage (incrementUsage cm t) s =
     (if s = t then map_option (\<lambda>u. u\<lparr>current := current u + 1\<rparr>) (getTokenUsage cm t)
      else getTokenUsage cm s)"
  by (auto simp: getTokenUsage_def incrementUsage_def map_of_map_entry split: option.splits)

lemma getTokenUsage_decrementUsage:
  "getTokenUsage (decrementUsage cm t) s =
     (if s = t then map_option (\<lambda>u. if current u > 0 then u\<lparr>current := current u - 1\<rparr> else u) (getTokenUsage cm t)
      else getTokenUsage cm s)"
  by (auto simp: getTokenUsage_def decrementUsage_def map_of_map_entry split: option.splits)

lemma canUseToken_getTokenUsage:
  "canUseToken cm t = (case getTokenUsage cm t of Some u \<Rightarrow> current u < max_usage u | None \<Rightarrow> False)"
  by (simp add: canUseToken_def getTokenUsage_def)

lemma acquire_times_Suc:
  "fst (acquire_times (Suc n) cm t) = fst (acquire cm t) # fst (acquire_times n (snd (acquire cm t)) t)"
  "snd (acquire_times (Suc n) cm t) = snd (acquire_times n (snd (acquire cm t)) t)"
  by (simp_all add: case_prod_beta)

lemma acquire_times_fails:
  "getTokenUsage cm t = Some u \<Longrightarrow> max_usage u \<le> current u \<Longrightarrow>
   acquire_times k cm t = (replicate k False, cm)"
  by (induction k) (simp_all add: acquire_def canUseToken_getTokenUsage)

lemma acquire_times_exhaust:
  "getTokenUsage cm t = Some u \<Longrightarrow> current u + int n = max_usage u \<Longrightarrow>
   fst (acquire_times (n + k) cm t) = replicate n True @ replicate k False \<and>
   getTokenUsage (snd (acquire_times n cm t)) t = Some (u\<lparr>current := max_usage u\<rparr>)"
proof (induction n arbitrary: cm u)
  case 0
  then show ?case by (simp add: acquire_times_fails)
next
  case (Suc n)
  let ?cm1 = "incrementUsage cm t"
  let ?u1 = "u\<lparr>current := current u + 1\<rparr>"
  from Suc.prems have can: "canUseToken cm t"
    by (simp add: canUseToken_getTokenUsage)
  have u1: "getTokenUsage ?cm1 t = Some ?u1"
    using Suc.prems(1) by (simp add: getTokenUsage_incrementUsage)
  have bal: "current ?u1 + int n = max_usage ?u1"
    using Suc.prems(2) by simp
  from can have acq: "acquire cm t = (True, ?cm1)"
    by (simp add: acquire_def)
  from Suc.IH [OF u1 bal] show ?case
    by (simp add: acquire_times_Suc acq del: acquire_times.simps)
qed

text \<open>
  Claim C3. A tracked token string with budget \<open>B > 0\<close> and nothing in use admits exactly
  \<open>B\<close> times: of \<open>B + k\<close> consecutive check-and-increment attempts the first \<open>B\<close> succeed
  and the remaining \<open>k\<close> fail. After the \<open>B\<close> admissions \<^verbatim>\<open>canUseToken\<close> answers false,
  and after one \<^verbatim>\<open>decrementUsage\<close> it answers true again.
\<close>

theorem budget_many_acquires:
  assumes "getTokenUsage cm t = Some \<lparr>current = 0, max_usage = int B\<rparr>" and "0 < B"
  shows "fst (acquire_times (B + k) cm t) = replicate B True @ replicate k False \<and>
         \<not> canUseToken (snd (acquire_times B cm t)) t \<and>
         canUseToken (decrementUsage (snd (acquire_times B cm t)) t) t"
proof -
  let ?u = "\<lparr>current = 0, max_usage = int B\<rparr>"
  have "current ?u + int B = max_usage ?u" by simp
  from acquire_times_exhaust [OF assms(1) this, of k]
  have res: "fst (acquire_times (B + k) cm t) = replicate B True @ replicate k False"
    and full: "getTokenUsage (snd (acquire_times B cm t)) t = Some \<lparr>current = int B, max_usage = int B\<rparr>"
    by simp_all
  from full have "\<not> canUseToken (snd (acquire_times B cm t)) t"
    by (simp add: canUseToken_getTokenUsage)
  moreover from full assms(2) have "canUseToken (decrementUsage (snd (acquire_times B cm t)) t) t"
    by (simp add: canUseToken_getTokenUsage getTokenUsage_decrementUsage)
  ultimately show ?thesis using res by simp
qed

text \<open>
  Claim C3, at budget 2: three attempts give true, true, false; the map is then full, and
  one release reopens it.
\<close>

theorem budget_many_acquires_witness:
  "getTokenUsage \<lparr>tokenUsage = [(''a'', \<lparr>current = 0, max_usage = int 2\<rparr>)], maxConcurrentPerToken = 2\<rparr> ''a''
     = Some \<lparr>current = 0, max_usage = int 2\<rparr> \<and> (0::nat) < 2 \<and>
   fst (acquire_times (2 + 1) \<lparr>tokenUsage = [(''a'', \<lparr>current = 0, max_usage = int 2\<rparr>)], maxConcurrentPerToken = 2\<rparr> ''a'')
     = [True, True, False] \<and>
   \<not> canUseToken (snd (acquire_times 2 \<lparr>tokenUsage = [(''a'', \<lparr>current = 0, max_usage = int 2\<rparr>)], maxConcurrentPerToken = 2\<rparr> ''a'')) ''a'' \<and>
   canUseToken (decrementUsage (snd (acquire_times 2 \<lparr>tokenUsage = [(''a'', \<lparr>current = 0, max_usage = int 2\<rparr>)], maxConcurrentPerToken = 2\<rparr> ''a'')) ''a'') ''a''"
proof -
  have h: "getTokenUsage \<lparr>tokenUsage = [(''a'', \<lparr>current = 0, max_usage = int 2\<rparr>)], maxConcurrentPerToken = 2\<rparr> ''a''
     = Some \<lparr>current = 0, max_usage = int 2\<rparr>"
    by (simp add: getTokenUsage_def)
  have p: "(0::nat) < 2" by simp
  have r: "replicate 2 True @ replicate 1 False = [True, True, False]"
    by (simp add: numeral_2_eq_2)
  from budget_many_acquires [OF h p, of 1] h p r show ?thesis
    by (simp only: simp_thms)
qed

text \<open>
  Claim C5, as stated, fails: with the counter of \<open>a\<close> at 0, \<^verbatim>\<open>decrementUsage("a")\<close>
  leaves the state as it was, prints nothing and throws nothing. The floor is silent.
\<close>

theorem decrement_at_zero_counterexample: 
  "decrementUsage_effects \<lparr>tokenUsage = [(''a'', \<lparr>current = 0, max_usage = 3\<rparr>)], maxConcurrentPerToken = 3\<rparr> ''a'' =
    \<lparr>consoleLines = [], thrown = None,
     stateAfter = \<lparr>tokenUsage = [(''a'', \<lparr>current = 0, max_usage = 3\<rparr>)], maxConcurrentPerToken = 3\<rparr>\<rparr>"
  by (simp add: decrementUsage_effects_def decrementUsage_def)

text \<open>
  Claim C5, amended. \<^verbatim>\<open>decrementUsage\<close> on a tracked token whose counter is 0 keeps the
  counter at 0 and the whole state unchanged, and it does so silently: no console line is
  written and no exception is thrown.
\<close>

theorem decrement_at_zero_silent:
  assumes "getTokenUsage cm t = Some u" and "current u = 0"
  shows "decrementUsage_effects cm t = \<lparr>consoleLines = [], thrown = None, stateAfter = cm\<rparr> \<and>
         getTokenUsage (decrementUsage cm t) t = Some u"
  using assms by (simp add: decrementUsage_effects_def decrementUsage_def getTokenUsage_def)

text \<open>
  Claim C5, amended, on the one-entry map with the counter at 0.
\<close>

theorem decrement_at_zero_silent_witness:
  "getTokenUsage \<lparr>tokenUsage = [(''a'', \<lparr>current = 0, max_usage = 3\<rparr>)], maxConcurrentPerToken = 3\<rparr> ''a'' = Some \<lparr>current = 0, max_usage = 3\<rparr> \<and>
   current \<lparr>current = 0, max_usage = 3\<rparr> = 0 \<and>
   consoleLines (decrementUsage_effects \<lparr>tokenUsage = [(''a'', \<lparr>current = 0, max_usage = 3\<rparr>)], maxConcurrentPerToken = 3\<rparr> ''a'') = []"
proof -
  have h: "getTokenUsage \<lparr>tokenUsage = [(''a'', \<lparr>current = 0, max_usage = 3\<rparr>)], maxConcurrentPerToken = 3\<rparr> ''a'' = Some \<lparr>current = 0, max_usage = 3\<rparr>"
    by (simp add: getTokenUsage_def)
  have z: "current \<lparr>current = 0, max_usage = 3\<rparr> = 0" by simp
  from decrement_at_zero_silent [OF h z] h z show ?thesis by simp
qed

section \<open>Properties of the dispatcher\<close>

lemma keys_incrementUsage: "map fst (tokenUsage (incrementUsage cm t)) = map fst (tokenUsage cm)"
proof -
  have "map fst (AList.map_entry t f xs) = map fst xs" for f and xs :: "(string \<times> TokenUsage) list"
    by (induction xs) auto
  then show ?thesis by (simp add: incrementUsage_def split: option.splits)
qed

lemma keys_decrementUsage: "map fst (tokenUsage (decrementUsage cm t)) = map fst (tokenUsage cm)"
proof -
  have "map fst (AList.map_entry t f xs) = map fst xs" for f and xs :: "(string \<times> TokenUsage) list"
    by (induction xs) auto
  then show ?thesis by (simp add: decrementUsage_def split: option.splits)
qed

lemma keys_setMaxConcurrentPerToken:
  "map fst (tokenUsage (setMaxConcurrentPerToken cm m)) = map fst (tokenUsage cm)"
  by (simp add: setMaxConcurrentPerToken_def case_prod_beta comp_def)

lemma untracked_iff: "getTokenUsage cm t = None \<longleftrightarrow> t \<notin> set (map fst (tokenUsage cm))"
  by (simp add: getTokenUsage_def map_of_eq_None_iff)

lemma incrementUsage_untracked: "getTokenUsage cm t = None \<Longrightarrow> incrementUsage cm t = cm"
  by (simp add: incrementUsage_def getTokenUsage_def)

lemma decrementUsage_untracked: "getTokenUsage cm t = None \<Longrightarrow> decrementUsage cm t = cm"
  by (simp add: decrementUsage_def getTokenUsage_def)

text \<open>What one run of the dispatcher's loop does to the two objects.\<close>

lemma getNextToken_tokens: "tokens (snd (getNextToken tm)) = tokens tm"
  by (simp add: getNextToken_def Let_def)

lemma getNextToken_Some:
  "getNextToken tm = (Some t, tm1) \<Longrightarrow> t \<in> set (tokens tm) \<and> enabled t"
proof -
  assume a: "getNextToken tm = (Some t, tm1)"
  let ?en = "filter enabled (tokens tm)"
  from a have ne: "?en \<noteq> []" and t: "t = ?en ! (tokenIndex tm mod length ?en)"
    by (auto simp: getNextToken_def Let_def split: if_splits)
  from ne have "tokenIndex tm mod length ?en < length ?en" by simp
  then have "t \<in> set ?en" unfolding t by (rule nth_mem)
  then show ?thesis by simp
qed

lemma getToken_loop_result:
  "getToken_loop n lb = (r, lb') \<Longrightarrow>
     tokens (tokenManager lb') = tokens (tokenManager lb) \<and>
     (case r of
        None \<Rightarrow> concurrencyManager lb' = concurrencyManager lb
      | Some s \<Rightarrow> canUseToken (concurrencyManager lb) s \<and>
                  concurrencyManager lb' = incrementUsage (concurrencyManager lb) s \<and>
                  (\<exists>t \<in> set (tokens (tokenManager lb)). enabled t \<and> token t = s))"
proof (induction n arbitrary: lb)
  case 0
  then show ?case by auto
next
  case (Suc n)
  obtain o1 tm1 where g: "getNextToken (tokenManager lb) = (o1, tm1)" by force
  have tk: "tokens tm1 = tokens (tokenManager lb)"
    using getNextToken_tokens [of "tokenManager lb"] g by simp
  show ?case
  proof (cases o1)
    case None
    with Suc.prems g tk show ?thesis by auto
  next
    case (Some t)
    with g have mem: "t \<in> set (tokens (tokenManager lb))" "enabled t"
      using getNextToken_Some by blast+
    show ?thesis
    proof (cases "canUseToken (concurrencyManager lb) (token t)")
      case True
      with Suc.prems g Some tk mem show ?thesis by auto
    next
      case False
      with Suc.prems g Some have "getToken_loop n (lb\<lparr>tokenManager := tm1\<rparr>) = (r, lb')" by simp
      from Suc.IH [OF this] tk show ?thesis by (auto split: option.splits)
    qed
  qed
qed

text \<open>One pass of the dispatcher's loop on a candidate is the check-and-increment \<^const>\<open>acquire\<close>.\<close>

lemma getToken_loop_acquire:
  "getNextToken (tokenManager lb) = (Some t, tm1) \<Longrightarrow>
   getToken_loop (Suc n) lb =
     (if fst (acquire (concurrencyManager lb) (token t))
      then (Some (token t),
            lb\<lparr>tokenManager := tm1,
               concurrencyManager := snd (acquire (concurrencyManager lb) (token t))\<rparr>)
      else getToken_loop n (lb\<lparr>tokenManager := tm1\<rparr>))"
  by (simp add: acquire_def)

lemmas getToken_result = getToken_loop_result [of "length (getTokens (tokenManager lb))" lb for lb, folded getToken_def]

lemma keys_getToken:
  "map fst (tokenUsage (concurrencyManager (snd (getToken lb)))) = map fst (tokenUsage (concurrencyManager lb))"
proof -
  obtain r lb' where g: "getToken lb = (r, lb')" by force
  from getToken_result [OF g] show ?thesis
    by (cases r) (auto simp: g keys_incrementUsage)
qed

lemma keys_apply_operation:
  "\<not> is_Initialize x \<Longrightarrow>
   map fst (tokenUsage (concurrencyManager (apply_operation lb x))) = map fst (tokenUsage (concurrencyManager lb))"
  by (cases x) (simp_all add: keys_incrementUsage keys_decrementUsage keys_setMaxConcurrentPerToken
      keys_getToken releaseToken_def)

lemma getToken_tracked:
  "fst (getToken lb) = Some s \<Longrightarrow> s \<in> set (map fst (tokenUsage (concurrencyManager lb)))"
proof -
  assume a: "fst (getToken lb) = Some s"
  obtain lb' where g: "getToken lb = (Some s, lb')" using a by (cases "getToken lb") auto
  from getToken_result [OF g] have "canUseToken (concurrencyManager lb) s" by simp
  then have "getTokenUsage (concurrencyManager lb) s \<noteq> None"
    by (auto simp: canUseToken_getTokenUsage split: option.splits)
  then show ?thesis unfolding untracked_iff by simp
qed

lemma untracked_run:
  "list_all (\<lambda>x. \<not> is_Initialize x) ops \<Longrightarrow> t \<notin> set (map fst (tokenUsage (concurrencyManager lb))) \<Longrightarrow>
   t \<notin> set (admissions lb ops) \<and> t \<notin> set (map fst (tokenUsage (concurrencyManager (run lb ops))))"
proof (induction ops arbitrary: lb)
  case Nil
  then show ?case by simp
next
  case (Cons x xs)
  from Cons.prems have nx: "\<not> is_Initialize x" and nxs: "list_all (\<lambda>x. \<not> is_Initialize x) xs" by simp_all
  from keys_apply_operation [OF nx] Cons.prems(2)
  have "t \<notin> set (map fst (tokenUsage (concurrencyManager (apply_operation lb x))))" by simp
  from Cons.IH [OF nxs this]
  have rest: "t \<notin> set (admissions (apply_operation lb x) xs)"
    "t \<notin> set (map fst (tokenUsage (concurrencyManager (run (apply_operation lb x) xs))))" by simp_all
  have "t \<notin> set (case x of GetToken \<Rightarrow> (case fst (getToken lb) of Some t \<Rightarrow> [t] | None \<Rightarrow> []) | _ \<Rightarrow> [])"
    using getToken_tracked [of lb t] Cons.prems(2)
    by (cases x) (auto split: option.splits)
  with rest show ?case by simp
qed

text \<open>
  Claim C9. A token string that is not a key of the admission map is refused by
  \<^verbatim>\<open>canUseToken\<close>, is ignored by \<^verbatim>\<open>incrementUsage\<close> and \<^verbatim>\<open>decrementUsage\<close>, and is not
  returned by \<^verbatim>\<open>getToken\<close>. No call other than \<^verbatim>\<open>initialize\<close> adds a key, so through any
  sequence of calls without \<^verbatim>\<open>initialize\<close> (reloading the pool included) the string stays
  untracked and no \<^verbatim>\<open>getToken\<close> of the sequence hands it out.
\<close>

theorem untracked_token_never_admitted:
  assumes "t \<notin> set (map fst (tokenUsage (concurrencyManager lb)))"
  shows "\<not> canUseToken (concurrencyManager lb) t \<and>
         incrementUsage (concurrencyManager lb) t = concurrencyManager lb \<and>
         decrementUsage (concurrencyManager lb) t = concurrencyManager lb \<and>
         fst (getToken lb) \<noteq> Some t \<and>
         (list_all (\<lambda>x. \<not> is_Initialize x) ops \<longrightarrow>
            t \<notin> set (admissions lb ops) \<and>
            t \<notin> set (map fst (tokenUsage (concurrencyManager (run lb ops)))))"
proof -
  from assms have none: "getTokenUsage (concurrencyManager lb) t = None"
    by (simp add: untracked_iff)
  then have "\<not> canUseToken (concurrencyManager lb) t"
    by (simp add: canUseToken_getTokenUsage)
  moreover have "fst (getToken lb) \<noteq> Some t"
    using getToken_tracked [of lb t] assms by blast
  ultimately show ?thesis
    using none assms untracked_run [of ops t lb]
    by (simp add: incrementUsage_untracked decrementUsage_untracked)
qed

text \<open>
  Claim C9, on a map initialised with \<open>a\<close> alone: the credential \<open>b\<close>, loaded into the
  pool afterwards, is not handed out by the next two \<^verbatim>\<open>getToken\<close> calls.
\<close>

theorem untracked_token_never_admitted_witness:
  "''b'' \<notin> set (map fst (tokenUsage (concurrencyManager
      (run pool_a [Initialize [mk_token 1 ''a'' True]])))) \<and>
   list_all (\<lambda>x. \<not> is_Initialize x) [LoadTokens [mk_token 1 ''a'' True, mk_token 2 ''b'' True], GetToken, GetToken] \<and>
   ''b'' \<notin> set (admissions (run pool_a [Initialize [mk_token 1 ''a'' True]])
                  [LoadTokens [mk_token 1 ''a'' True, mk_token 2 ''b'' True], GetToken, GetToken])"
proof -
  have h: "''b'' \<notin> set (map fst (tokenUsage (concurrencyManager
      (run pool_a [Initialize [mk_token 1 ''a'' True]]))))"
    by (simp add: pool_a_def mk_token_def initialize_def)
  have n: "list_all (\<lambda>x. \<not> is_Initialize x) [LoadTokens [mk_token 1 ''a'' True, mk_token 2 ''b'' True], GetToken, GetToken]"
    by simp
  from untracked_token_never_admitted [OF h, of "[LoadTokens [mk_token 1 ''a'' True, mk_token 2 ''b'' True], GetToken, GetToken]"] h n
  show ?thesis by blast
qed

subsection \<open>The bounds on the counters\<close>

lemma list_all_update:
  "list_all Q xs \<Longrightarrow> Q (k, v) \<Longrightarrow> list_all Q (AList.update k v xs)"
  by (induction xs) auto

lemma list_all_map_entry:
  "list_all Q xs \<Longrightarrow> (\<And>u. map_of xs k = Some u \<Longrightarrow> Q (k, u) \<Longrightarrow> Q (k, f u)) \<Longrightarrow>
   list_all Q (AList.map_entry k f xs)"
  by (induction xs) auto

lemma list_all_initialize_loop:
  "list_all Q us \<Longrightarrow> (\<And>k. Q (k, \<lparr>current = 0, max_usage = m\<rparr>)) \<Longrightarrow>
   list_all Q (initialize_loop m ts us)"
  by (induction ts arbitrary: us) (simp_all add: list_all_update)

lemma usage_nonneg_incrementUsage: "usage_nonneg cm \<Longrightarrow> usage_nonneg (incrementUsage cm t)"
  by (auto simp: usage_nonneg_def incrementUsage_def split: option.splits intro!: list_all_map_entry)

lemma usage_nonneg_decrementUsage: "usage_nonneg cm \<Longrightarrow> usage_nonneg (decrementUsage cm t)"
  by (auto simp: usage_nonneg_def decrementUsage_def split: option.splits intro!: list_all_map_entry)

lemma usage_nonneg_initialize: "usage_nonneg (initialize cm ts)"
  by (simp add: usage_nonneg_def initialize_def list_all_initialize_loop)

lemma usage_nonneg_setMax: "usage_nonneg cm \<Longrightarrow> usage_nonneg (setMaxConcurrentPerToken cm m)"
  by (simp add: usage_nonneg_def setMaxConcurrentPerToken_def list_all_iff case_prod_beta)

lemma getToken_cm_cases:
  "concurrencyManager (snd (getToken lb)) = concurrencyManager lb \<or>
   (\<exists>s. canUseToken (concurrencyManager lb) s \<and>
        concurrencyManager (snd (getToken lb)) = incrementUsage (concurrencyManager lb) s)"
proof -
  obtain r lb' where g: "getToken lb = (r, lb')" by force
  from getToken_result [OF g] show ?thesis by (cases r) (auto simp: g)
qed

lemma usage_nonneg_apply_operation:
  "usage_nonneg (concurrencyManager lb) \<Longrightarrow> usage_nonneg (concurrencyManager (apply_operation lb x))"
proof (cases x)
  case GetToken
  assume "usage_nonneg (concurrencyManager lb)"
  with getToken_cm_cases [of lb] GetToken show ?thesis
    by (auto simp: usage_nonneg_incrementUsage)
qed (simp_all add: usage_nonneg_incrementUsage usage_nonneg_decrementUsage usage_nonneg_initialize
      usage_nonneg_setMax releaseToken_def)

lemma usage_nonneg_run:
  "usage_nonneg (concurrencyManager lb) \<Longrightarrow> usage_nonneg (concurrencyManager (run lb ops))"
  by (induction ops arbitrary: lb) (simp_all add: usage_nonneg_apply_operation)

text \<open>The upper bound, kept together with a non-negative default budget.\<close>

lemma within_budget_incrementUsage:
  "usage_within_budget cm \<Longrightarrow> canUseToken cm t \<Longrightarrow> usage_within_budget (incrementUsage cm t)"
  by (auto simp: usage_within_budget_def incrementUsage_def canUseToken_def split: option.splits
      intro!: list_all_map_entry)

lemma within_budget_decrementUsage:
  "usage_within_budget cm \<Longrightarrow> usage_within_budget (decrementUsage cm t)"
  by (auto simp: usage_within_budget_def decrementUsage_def split: option.splits
      intro!: list_all_map_entry)

lemma within_budget_initialize:
  "0 \<le> maxConcurrentPerToken cm \<Longrightarrow> usage_within_budget (initialize cm ts)"
  by (simp add: usage_within_budget_def initialize_def list_all_initialize_loop)

lemma within_budget_setMax:
  "list_all (\<lambda>(k, usage). current usage \<le> m) (tokenUsage cm) \<Longrightarrow>
   usage_within_budget (setMaxConcurrentPerToken cm m)"
  by (simp add: usage_within_budget_def setMaxConcurrentPerToken_def list_all_iff case_prod_beta)

lemma maxConcurrent_unchanged:
  "maxConcurrentPerToken (incrementUsage cm t) = maxConcurrentPerToken cm"
  "maxConcurrentPerToken (decrementUsage cm t) = maxConcurrentPerToken cm"
  "maxConcurrentPerToken (initialize cm ts) = maxConcurrentPerToken cm"
  "maxConcurrentPerToken (setMaxConcurrentPerToken cm m) = m"
  by (simp_all add: incrementUsage_def decrementUsage_def initialize_def setMaxConcurrentPerToken_def
      split: option.splits)

lemma budget_ok_apply_operation:
  assumes "budget_ok (concurrencyManager lb)" and "disciplined_call lb x"
  shows "budget_ok (concurrencyManager (apply_operation lb x))"
proof (cases x)
  case GetToken
  with getToken_cm_cases [of lb] assms(1) show ?thesis
    by (auto simp: budget_ok_def within_budget_incrementUsage maxConcurrent_unchanged)
next
  case (SetMaxConcurrentPerToken m)
  with assms show ?thesis
    by (simp add: budget_ok_def within_budget_setMax maxConcurrent_unchanged)
qed (use assms in \<open>simp_all add: budget_ok_def within_budget_incrementUsage within_budget_decrementUsage
      within_budget_initialize maxConcurrent_unchanged releaseToken_def\<close>)

lemma budget_ok_run:
  "budget_ok (concurrencyManager lb) \<Longrightarrow> disciplined lb ops \<Longrightarrow> budget_ok (concurrencyManager (run lb ops))"
  by (induction ops arbitrary: lb) (simp_all add: budget_ok_apply_operation)

text \<open>
  Claim C2, as stated, fails. After \<^verbatim>\<open>initialize\<close> with the default budget 3, two
  increments of \<open>a\<close>, each right after \<^verbatim>\<open>canUseToken("a")\<close> answered true, and then
  \<^verbatim>\<open>setMaxConcurrentPerToken(1)\<close>, the entry of \<open>a\<close> reads 2 in use against a budget of 1.
\<close>

theorem usage_bounds_counterexample:
  "canUseToken (concurrencyManager (run pool_a [Initialize [mk_token 1 ''a'' True]])) ''a'' \<and>
   canUseToken (concurrencyManager (run pool_a
      [Initialize [mk_token 1 ''a'' True], CanUseToken ''a'', IncrementUsage ''a''])) ''a'' \<and>
   getTokenUsage (concurrencyManager (run pool_a
      [Initialize [mk_token 1 ''a'' True], CanUseToken ''a'', IncrementUsage ''a'',
       CanUseToken ''a'', IncrementUsage ''a'', SetMaxConcurrentPerToken 1])) ''a''
     = Some \<lparr>current = 2, max_usage = 1\<rparr> \<and>
   \<not> usage_within_budget (concurrencyManager (run pool_a
      [Initialize [mk_token 1 ''a'' True], CanUseToken ''a'', IncrementUsage ''a'',
       CanUseToken ''a'', IncrementUsage ''a'', SetMaxConcurrentPerToken 1]))"
  by (simp add: pool_a_def mk_token_def new_ConcurrencyManager_def initialize_def canUseToken_def
      incrementUsage_def setMaxConcurrentPerToken_def getTokenUsage_def usage_within_budget_def)

text \<open>
  Claim C2, amended. From a freshly constructed manager, after every sequence of calls
  every tracked counter is at least 0. Every tracked counter is also at most its budget
  when the sequence keeps the dispatcher's discipline: each bare \<^verbatim>\<open>incrementUsage(t)\<close>
  follows a \<^verbatim>\<open>canUseToken(t)\<close> that holds in that state, and each
  \<^verbatim>\<open>setMaxConcurrentPerToken(m)\<close> has \<open>m \<ge> 0\<close> and no tracked counter above \<open>m\<close>.
\<close>

theorem usage_bounds_after_run:
  assumes "concurrencyManager lb = new_ConcurrencyManager"
  shows "usage_nonneg (concurrencyManager (run lb ops)) \<and>
         (disciplined lb ops \<longrightarrow> usage_within_budget (concurrencyManager (run lb ops)))"
proof -
  from assms have "usage_nonneg (concurrencyManager lb)" and "budget_ok (concurrencyManager lb)"
    by (simp_all add: new_ConcurrencyManager_def usage_nonneg_def budget_ok_def usage_within_budget_def)
  then show ?thesis
    using usage_nonneg_run [of lb ops] budget_ok_run [of lb ops] by (simp add: budget_ok_def)
qed

text \<open>
  Claim C2, amended, on a disciplined sequence of six calls.
\<close>

theorem usage_bounds_after_run_witness:
  "concurrencyManager pool_a = new_ConcurrencyManager \<and>
   disciplined pool_a [Initialize [mk_token 1 ''a'' True], CanUseToken ''a'', IncrementUsage ''a'',
       DecrementUsage ''a'', SetMaxConcurrentPerToken 5, GetToken] \<and>
   usage_within_budget (concurrencyManager (run pool_a
      [Initialize [mk_token 1 ''a'' True], CanUseToken ''a'', IncrementUsage ''a'',
       DecrementUsage ''a'', SetMaxConcurrentPerToken 5, GetToken]))"
proof -
  have h: "concurrencyManager pool_a = new_ConcurrencyManager" by (simp add: pool_a_def)
  have d: "disciplined pool_a [Initialize [mk_token 1 ''a'' True], CanUseToken ''a'', IncrementUsage ''a'',
       DecrementUsage ''a'', SetMaxConcurrentPerToken 5, GetToken]"
    by (simp add: pool_a_def mk_token_def new_ConcurrencyManager_def initialize_def canUseToken_def
      incrementUsage_def decrementUsage_def setMaxConcurrentPerToken_def)
  from usage_bounds_after_run [OF h, of "[Initialize [mk_token 1 ''a'' True], CanUseToken ''a'', IncrementUsage ''a'',
       DecrementUsage ''a'', SetMaxConcurrentPerToken 5, GetToken]"] h d
  show ?thesis by blast
qed

subsection \<open>Rotation\<close>

lemma getNextToken_times_Suc:
  "fst (getNextToken_times (Suc k) tm) = fst (getNextToken tm) # fst (getNextToken_times k (snd (getNextToken tm)))"
  "snd (getNextToken_times (Suc k) tm) = snd (getNextToken_times k (snd (getNextToken tm)))"
  by (simp_all add: case_prod_beta)

lemma getNextToken_nonempty:
  assumes "filter enabled (tokens tm) \<noteq> []"
  shows "fst (getNextToken tm) = Some (filter enabled (tokens tm) ! (tokenIndex tm mod length (filter enabled (tokens tm))))"
    and "tokens (snd (getNextToken tm)) = tokens tm"
    and "tokenIndex (snd (getNextToken tm)) = (tokenIndex tm + 1) mod length (filter enabled (tokens tm))"
  using assms by (simp_all add: getNextToken_def Let_def)

lemma getNextToken_times_cycle:
  assumes "filter enabled (tokens tm) = en" and "en \<noteq> []"
  shows "fst (getNextToken_times k tm) =
           map (\<lambda>j. Some (en ! ((tokenIndex tm + j) mod length en))) [0..<k]"
  using assms
proof (induction k arbitrary: tm)
  case 0
  then show ?case by simp
next
  case (Suc k)
  let ?tm1 = "snd (getNextToken tm)"
  from Suc.prems have ne: "filter enabled (tokens tm) \<noteq> []" by simp
  have en1: "filter enabled (tokens ?tm1) = en"
    using getNextToken_nonempty(2) [OF ne] Suc.prems(1) by simp
  have idx1: "tokenIndex ?tm1 = (tokenIndex tm + 1) mod length en"
    using getNextToken_nonempty(3) [OF ne] Suc.prems(1) by simp
  have hd1: "fst (getNextToken tm) = Some (en ! (tokenIndex tm mod length en))"
    using getNextToken_nonempty(1) [OF ne] Suc.prems(1) by simp
  have shift: "((tokenIndex tm + 1) mod length en + j) mod length en = (tokenIndex tm + Suc j) mod length en" for j
    by (simp add: mod_add_left_eq)
  have "fst (getNextToken_times k ?tm1) =
          map (\<lambda>j. Some (en ! ((tokenIndex tm + Suc j) mod length en))) [0..<k]"
    using Suc.IH [OF en1 Suc.prems(2)] by (simp only: idx1 shift)
  also have "\<dots> = map (\<lambda>j. Some (en ! ((tokenIndex tm + j) mod length en))) (map Suc [0..<k])"
    by (simp add: comp_def)
  finally have tl: "fst (getNextToken_times k ?tm1) =
      map (\<lambda>j. Some (en ! ((tokenIndex tm + j) mod length en))) [Suc 0..<Suc k]"
    by (simp only: map_Suc_upt)
  have "[0..<Suc k] = 0 # [Suc 0..<Suc k]" by (simp add: upt_rec)
  then show ?case
    by (simp only: getNextToken_times_Suc hd1 tl list.map) simp
qed

lemma cycle_is_rotate:
  assumes "en \<noteq> []"
  shows "map (\<lambda>j. en ! ((i + j) mod length en)) [0..<length en] = rotate i en"
proof (rule nth_equalityI)
  show "length (map (\<lambda>j. en ! ((i + j) mod length en)) [0..<length en]) = length (rotate i en)" by simp
next
  fix j assume "j < length (map (\<lambda>j. en ! ((i + j) mod length en)) [0..<length en])"
  then have j: "j < length en" by simp
  then show "map (\<lambda>j. en ! ((i + j) mod length en)) [0..<length en] ! j = rotate i en ! j"
    by (simp add: nth_rotate)
qed

lemma mset_rotate_eq: "mset (rotate n xs) = mset xs"
proof -
  let ?k = "n mod length xs"
  have "mset (take ?k xs) + mset (drop ?k xs) = mset (take ?k xs @ drop ?k xs)"
    by (simp only: mset_append)
  also have "\<dots> = mset xs" by simp
  finally have split: "mset (take ?k xs) + mset (drop ?k xs) = mset xs" .
  have "mset (rotate n xs) = mset (drop ?k xs) + mset (take ?k xs)"
    by (simp add: rotate_drop_take)
  with split show ?thesis by (simp only: add.commute)
qed

text \<open>
  Claim C6. With \<open>N\<close> enabled credentials in a pool that does not change, \<open>N\<close>
  consecutive \<^verbatim>\<open>getNextToken\<close> calls return the enabled credentials in their pool order
  rotated to the cursor, so each of them exactly once, and the call after those returns
  what the first one returned.
\<close>

theorem round_robin_cycle:
  assumes "filter enabled (tokens tm) = en"
  shows "fst (getNextToken_times (length en) tm) = map Some (rotate (tokenIndex tm) en) \<and>
         mset (fst (getNextToken_times (length en) tm)) = mset (map Some en) \<and>
         fst (getNextToken_times (Suc (length en)) tm) ! length en =
           fst (getNextToken_times (Suc (length en)) tm) ! 0"
proof (cases "en = []")
  case True
  then show ?thesis by simp
next
  case False
  have a: "fst (getNextToken_times (length en) tm) = map Some (rotate (tokenIndex tm) en)"
  proof -
    have "map (\<lambda>j. Some (en ! ((tokenIndex tm + j) mod length en))) [0..<length en] =
          map Some (map (\<lambda>j. en ! ((tokenIndex tm + j) mod length en)) [0..<length en])"
      by (simp add: comp_def)
    then show ?thesis
      using getNextToken_times_cycle [OF assms False, of "length en"]
        cycle_is_rotate [OF False, of "tokenIndex tm"]
      by simp
  qed
  have b: "mset (fst (getNextToken_times (length en) tm)) = mset (map Some en)"
    unfolding a by (simp add: mset_rotate_eq)
  have c: "fst (getNextToken_times (Suc (length en)) tm) ! length en =
           fst (getNextToken_times (Suc (length en)) tm) ! 0"
    unfolding getNextToken_times_cycle [OF assms False, of "Suc (length en)"]
    by (simp add: nth_map_upt del: upt_Suc)
  from a b c show ?thesis by simp
qed

text \<open>
  Claim C6, on a pool of three credentials, the second disabled, with the cursor at 1.
\<close>

theorem round_robin_cycle_witness:
  "filter enabled (tokens \<lparr>tokens = [mk_token 1 ''a'' True, mk_token 2 ''b'' False, mk_token 3 ''c'' True], tokenIndex = 1\<rparr>)
     = [mk_token 1 ''a'' True, mk_token 3 ''c'' True] \<and>
   fst (getNextToken_times (length [mk_token 1 ''a'' True, mk_token 3 ''c'' True])
         \<lparr>tokens = [mk_token 1 ''a'' True, mk_token 2 ''b'' False, mk_token 3 ''c'' True], tokenIndex = 1\<rparr>)
     = [Some (mk_token 3 ''c'' True), Some (mk_token 1 ''a'' True)]"
proof -
  have h: "filter enabled (tokens \<lparr>tokens = [mk_token 1 ''a'' True, mk_token 2 ''b'' False, mk_token 3 ''c'' True], tokenIndex = 1\<rparr>)
     = [mk_token 1 ''a'' True, mk_token 3 ''c'' True]"
    by (simp add: mk_token_def)
  from round_robin_cycle [OF h] h show ?thesis by simp
qed

subsection \<open>Capacity\<close>

lemma getToken_loop_no_enabled:
  "filter enabled (tokens (tokenManager lb)) = [] \<Longrightarrow> fst (getToken_loop k lb) = None"
  by (cases k) (simp_all add: getNextToken_def)

lemma getToken_loop_None_iff:
  assumes "filter enabled (tokens (tokenManager lb)) = en" and "en \<noteq> []"
  shows "fst (getToken_loop k lb) = None \<longleftrightarrow>
         (\<forall>j<k. \<not> canUseToken (concurrencyManager lb)
                    (token (en ! ((tokenIndex (tokenManager lb) + j) mod length en))))"
  using assms
proof (induction k arbitrary: lb)
  case 0
  then show ?case by simp
next
  case (Suc k)
  let ?tm = "tokenManager lb"
  let ?t = "en ! (tokenIndex ?tm mod length en)"
  from Suc.prems have ne: "filter enabled (tokens ?tm) \<noteq> []" by simp
  obtain r1 tm1 where g0: "getNextToken ?tm = (r1, tm1)" by force
  have g: "getNextToken ?tm = (Some ?t, tm1)"
    using getNextToken_nonempty(1) [OF ne] Suc.prems(1) g0 by simp
  have en1: "filter enabled (tokens tm1) = en"
    using getNextToken_nonempty(2) [OF ne] Suc.prems(1) g0 by simp
  have idx1: "tokenIndex tm1 = (tokenIndex ?tm + 1) mod length en"
    using getNextToken_nonempty(3) [OF ne] Suc.prems(1) g0 by simp
  have shift: "((tokenIndex ?tm + 1) mod length en + j) mod length en = (tokenIndex ?tm + Suc j) mod length en" for j
    by (simp add: mod_add_left_eq)
  show ?case
  proof (cases "canUseToken (concurrencyManager lb) (token ?t)")
    case True
    then have "fst (getToken_loop (Suc k) lb) \<noteq> None" by (simp add: g)
    moreover from True have "\<not> (\<forall>j<Suc k. \<not> canUseToken (concurrencyManager lb)
                    (token (en ! ((tokenIndex ?tm + j) mod length en))))"
      by (auto intro: exI [of _ 0])
    ultimately show ?thesis by blast
  next
    case False
    let ?lb1 = "lb\<lparr>tokenManager := tm1\<rparr>"
    from False have step: "getToken_loop (Suc k) lb = getToken_loop k ?lb1" by (simp add: g)
    have ih: "fst (getToken_loop k ?lb1) = None \<longleftrightarrow>
         (\<forall>j<k. \<not> canUseToken (concurrencyManager lb)
                    (token (en ! ((tokenIndex tm1 + j) mod length en))))"
      using Suc.IH [of ?lb1] en1 Suc.prems(2) by simp
    have "fst (getToken_loop k ?lb1) = None \<longleftrightarrow>
         (\<forall>j<k. \<not> canUseToken (concurrencyManager lb)
                    (token (en ! ((tokenIndex ?tm + Suc j) mod length en))))"
      using ih unfolding idx1 shift .
    with False show ?thesis
      unfolding step by (simp add: All_less_Suc2)
  qed
qed

lemma cycle_covers:
  assumes "i < n" and "n \<le> k"
  shows "\<exists>j<k. (idx + j) mod n = (i::nat)"
proof -
  let ?r = "idx mod n"
  let ?j = "(i + n - ?r) mod n"
  from assms have n: "0 < n" by simp
  then have r: "?r < n" by simp
  have "(idx + ?j) mod n = (?r + (i + n - ?r)) mod n"
    by (simp only: mod_add_left_eq mod_add_right_eq)
  also from r have "?r + (i + n - ?r) = i + n" by simp
  also from assms(1) have "(i + n) mod n = i" by simp
  finally have "(idx + ?j) mod n = i" .
  moreover from n assms(2) have "?j < k"
    by (meson mod_less_divisor less_le_trans)
  ultimately show ?thesis by blast
qed

lemma getToken_None_iff:
  "fst (getToken lb) = None \<longleftrightarrow>
   (\<forall>t \<in> set (tokens (tokenManager lb)). enabled t \<longrightarrow> \<not> canUseToken (concurrencyManager lb) (token t))"
proof (cases "filter enabled (tokens (tokenManager lb)) = []")
  case True
  then have "fst (getToken lb) = None"
    by (simp add: getToken_def getToken_loop_no_enabled)
  moreover from True have "\<forall>t \<in> set (tokens (tokenManager lb)). \<not> enabled t"
    by (simp add: filter_empty_conv)
  ultimately show ?thesis by simp
next
  case False
  let ?en = "filter enabled (tokens (tokenManager lb))"
  let ?k = "length (tokens (tokenManager lb))"
  let ?P = "\<lambda>t. \<not> canUseToken (concurrencyManager lb) (token t)"
  have len: "length ?en \<le> ?k" by simp
  have "(\<forall>j< ?k. ?P (?en ! ((tokenIndex (tokenManager lb) + j) mod length ?en))) \<longleftrightarrow> (\<forall>t \<in> set ?en. ?P t)"
  proof
    assume a: "\<forall>j< ?k. ?P (?en ! ((tokenIndex (tokenManager lb) + j) mod length ?en))"
    show "\<forall>t \<in> set ?en. ?P t"
    proof
      fix t assume "t \<in> set ?en"
      then obtain i where i: "i < length ?en" "?en ! i = t"
        unfolding in_set_conv_nth by blast
      from cycle_covers [OF i(1) len, of "tokenIndex (tokenManager lb)"]
      obtain j where "j < ?k" "(tokenIndex (tokenManager lb) + j) mod length ?en = i" by blast
      with a i(2) show "?P t" by metis
    qed
  next
    assume b: "\<forall>t \<in> set ?en. ?P t"
    show "\<forall>j< ?k. ?P (?en ! ((tokenIndex (tokenManager lb) + j) mod length ?en))"
    proof (intro allI impI)
      fix j
      from False have "(tokenIndex (tokenManager lb) + j) mod length ?en < length ?en" by simp
      then have "?en ! ((tokenIndex (tokenManager lb) + j) mod length ?en) \<in> set ?en" by (rule nth_mem)
      with b show "?P (?en ! ((tokenIndex (tokenManager lb) + j) mod length ?en))" by blast
    qed
  qed
  moreover have "(\<forall>t \<in> set ?en. ?P t) \<longleftrightarrow> (\<forall>t \<in> set (tokens (tokenManager lb)). enabled t \<longrightarrow> ?P t)"
    by auto
  ultimately show ?thesis
    using getToken_loop_None_iff [OF refl False, of ?k] by (simp add: getToken_def getTokens_def)
qed

text \<open>
  Claim C4. \<^verbatim>\<open>getToken\<close> returns \<^verbatim>\<open>null\<close> exactly when \<^verbatim>\<open>canUseToken\<close> is false for the
  token of every enabled credential of the pool. When it returns a string, that string is
  the token of an enabled credential, \<^verbatim>\<open>canUseToken\<close> held for it, and the admission map
  afterwards is the one before with that counter incremented.
\<close>

theorem getToken_no_capacity_iff:
  "(fst (getToken lb) = None \<longleftrightarrow>
      (\<forall>t \<in> set (tokens (tokenManager lb)).
          enabled t \<longrightarrow> \<not> canUseToken (concurrencyManager lb) (token t))) \<and>
   (\<forall>s. fst (getToken lb) = Some s \<longrightarrow>
      (\<exists>t \<in> set (tokens (tokenManager lb)). enabled t \<and> token t = s) \<and>
      canUseToken (concurrencyManager lb) s \<and>
      concurrencyManager (snd (getToken lb)) = incrementUsage (concurrencyManager lb) s \<and>
      getTokenUsage (concurrencyManager (snd (getToken lb))) s =
        map_option (\<lambda>u. u\<lparr>current := current u + 1\<rparr>) (getTokenUsage (concurrencyManager lb) s))"
proof -
  have "(\<exists>t \<in> set (tokens (tokenManager lb)). enabled t \<and> token t = s) \<and>
      canUseToken (concurrencyManager lb) s \<and>
      concurrencyManager (snd (getToken lb)) = incrementUsage (concurrencyManager lb) s \<and>
      getTokenUsage (concurrencyManager (snd (getToken lb))) s =
        map_option (\<lambda>u. u\<lparr>current := current u + 1\<rparr>) (getTokenUsage (concurrencyManager lb) s)"
    if a: "fst (getToken lb) = Some s" for s
  proof -
    obtain lb' where g: "getToken lb = (Some s, lb')" using a by (cases "getToken lb") auto
    from getToken_result [OF g] show ?thesis
      by (simp add: g getTokenUsage_incrementUsage)
  qed
  with getToken_None_iff [of lb] show ?thesis by blast
qed

text \<open>
  Claim C4, on a pool of one credential: at 3 of 3 the answer is \<^verbatim>\<open>null\<close>; at 2 of 3 the
  answer is the token and the counter becomes 3.
\<close>

theorem getToken_no_capacity_iff_witness:
  "fst (getToken \<lparr>tokenManager = \<lparr>tokens = [mk_token 1 ''a'' True], tokenIndex = 0\<rparr>,
         concurrencyManager = \<lparr>tokenUsage = [(''a'', \<lparr>current = 3, max_usage = 3\<rparr>)], maxConcurrentPerToken = 3\<rparr>\<rparr>) = None \<and>
   fst (getToken \<lparr>tokenManager = \<lparr>tokens = [mk_token 1 ''a'' True], tokenIndex = 0\<rparr>,
         concurrencyManager = \<lparr>tokenUsage = [(''a'', \<lparr>current = 2, max_usage = 3\<rparr>)], maxConcurrentPerToken = 3\<rparr>\<rparr>) = Some ''a'' \<and>
   getTokenUsage (concurrencyManager (snd (getToken \<lparr>tokenManager = \<lparr>tokens = [mk_token 1 ''a'' True], tokenIndex = 0\<rparr>,
         concurrencyManager = \<lparr>tokenUsage = [(''a'', \<lparr>current = 2, max_usage = 3\<rparr>)], maxConcurrentPerToken = 3\<rparr>\<rparr>))) ''a''
     = Some \<lparr>current = 3, max_usage = 3\<rparr>"
proof -
  have full: "\<forall>t \<in> set (tokens (tokenManager
        \<lparr>tokenManager = \<lparr>tokens = [mk_token 1 ''a'' True], tokenIndex = 0\<rparr>,
         concurrencyManager = \<lparr>tokenUsage = [(''a'', \<lparr>current = 3, max_usage = 3\<rparr>)], maxConcurrentPerToken = 3\<rparr>\<rparr>)).
      enabled t \<longrightarrow> \<not> canUseToken (concurrencyManager
        \<lparr>tokenManager = \<lparr>tokens = [mk_token 1 ''a'' True], tokenIndex = 0\<rparr>,
         concurrencyManager = \<lparr>tokenUsage = [(''a'', \<lparr>current = 3, max_usage = 3\<rparr>)], maxConcurrentPerToken = 3\<rparr>\<rparr>) (token t)"
    by (simp add: mk_token_def canUseToken_def)
  have free: "fst (getToken \<lparr>tokenManager = \<lparr>tokens = [mk_token 1 ''a'' True], tokenIndex = 0\<rparr>,
         concurrencyManager = \<lparr>tokenUsage = [(''a'', \<lparr>current = 2, max_usage = 3\<rparr>)], maxConcurrentPerToken = 3\<rparr>\<rparr>) = Some ''a''"
    by (simp add: getToken_def getTokens_def getNextToken_def mk_token_def canUseToken_def)
  from getToken_no_capacity_iff [of "\<lparr>tokenManager = \<lparr>tokens = [mk_token 1 ''a'' True], tokenIndex = 0\<rparr>,
         concurrencyManager = \<lparr>tokenUsage = [(''a'', \<lparr>current = 3, max_usage = 3\<rparr>)], maxConcurrentPerToken = 3\<rparr>\<rparr>"] full
  have none: "fst (getToken \<lparr>tokenManager = \<lparr>tokens = [mk_token 1 ''a'' True], tokenIndex = 0\<rparr>,
         concurrencyManager = \<lparr>tokenUsage = [(''a'', \<lparr>current = 3, max_usage = 3\<rparr>)], maxConcurrentPerToken = 3\<rparr>\<rparr>) = None"
    by blast
  from getToken_no_capacity_iff [of "\<lparr>tokenManager = \<lparr>tokens = [mk_token 1 ''a'' True], tokenIndex = 0\<rparr>,
         concurrencyManager = \<lparr>tokenUsage = [(''a'', \<lparr>current = 2, max_usage = 3\<rparr>)], maxConcurrentPerToken = 3\<rparr>\<rparr>"] free
  have "getTokenUsage (concurrencyManager (snd (getToken \<lparr>tokenManager = \<lparr>tokens = [mk_token 1 ''a'' True], tokenIndex = 0\<rparr>,
         concurrencyManager = \<lparr>tokenUsage = [(''a'', \<lparr>current = 2, max_usage = 3\<rparr>)], maxConcurrentPerToken = 3\<rparr>\<rparr>))) ''a''
     = map_option (\<lambda>u. u\<lparr>current := current u + 1\<rparr>) (getTokenUsage (concurrencyManager \<lparr>tokenManager = \<lparr>tokens = [mk_token 1 ''a'' True], tokenIndex = 0\<rparr>,
         concurrencyManager = \<lparr>tokenUsage = [(''a'', \<lparr>current = 2, max_usage = 3\<rparr>)], maxConcurrentPerToken = 3\<rparr>\<rparr>) ''a'')"
    by blast
  then have "getTokenUsage (concurrencyManager (snd (getToken \<lparr>tokenManager = \<lparr>tokens = [mk_token 1 ''a'' True], tokenIndex = 0\<rparr>,
         concurrencyManager = \<lparr>tokenUsage = [(''a'', \<lparr>current = 2, max_usage = 3\<rparr>)], maxConcurrentPerToken = 3\<rparr>\<rparr>))) ''a''
     = Some \<lparr>current = 3, max_usage = 3\<rparr>"
    by (simp add: getTokenUsage_def)
  with none free show ?thesis by blast
qed

subsection \<open>Credentials that share a secret\<close>

lemma shared_getToken:
  assumes same: "\<forall>t \<in> set (tokens (tokenManager lb)). enabled t \<longrightarrow> token t = s"
    and some: "\<exists>t \<in> set (tokens (tokenManager lb)). enabled t"
  shows "fst (getToken lb) = (if canUseToken (concurrencyManager lb) s then Some s else None)"
    and "concurrencyManager (snd (getToken lb)) =
           (if canUseToken (concurrencyManager lb) s then incrementUsage (concurrencyManager lb) s
            else concurrencyManager lb)"
    and "tokens (tokenManager (snd (getToken lb))) = tokens (tokenManager lb)"
proof -
  obtain r lb' where g: "getToken lb = (r, lb')" by force
  note res = getToken_result [OF g]
  have r: "r = (if canUseToken (concurrencyManager lb) s then Some s else None)"
  proof (cases r)
    case None
    with g have "fst (getToken lb) = None" by simp
    then have "\<forall>t \<in> set (tokens (tokenManager lb)). enabled t \<longrightarrow> \<not> canUseToken (concurrencyManager lb) (token t)"
      by (simp only: getToken_None_iff)
    with same some have "\<not> canUseToken (concurrencyManager lb) s" by metis
    with None show ?thesis by simp
  next
    case (Some s')
    with res same have "s' = s" "canUseToken (concurrencyManager lb) s'" by auto
    with Some show ?thesis by simp
  qed
  show "fst (getToken lb) = (if canUseToken (concurrencyManager lb) s then Some s else None)"
    using r g by simp
  show "concurrencyManager (snd (getToken lb)) =
           (if canUseToken (concurrencyManager lb) s then incrementUsage (concurrencyManager lb) s
            else concurrencyManager lb)"
    using res r g by (auto split: if_splits)
  show "tokens (tokenManager (snd (getToken lb))) = tokens (tokenManager lb)"
    using res g by simp
qed

lemma shared_admissions_full:
  assumes "\<forall>t \<in> set (tokens (tokenManager lb)). enabled t \<longrightarrow> token t = s"
    and "\<exists>t \<in> set (tokens (tokenManager lb)). enabled t"
    and "getTokenUsage (concurrencyManager lb) s = Some u" and "max_usage u \<le> current u"
  shows "admissions lb (replicate k GetToken) = []"
  using assms
proof (induction k arbitrary: lb)
  case 0
  then show ?case by simp
next
  case (Suc k)
  from Suc.prems(3,4) have no: "\<not> canUseToken (concurrencyManager lb) s"
    by (simp add: canUseToken_getTokenUsage)
  note sg = shared_getToken [OF Suc.prems(1,2)]
  let ?lb1 = "snd (getToken lb)"
  have "admissions ?lb1 (replicate k GetToken) = []"
    using Suc.IH [of ?lb1] Suc.prems sg no by simp
  with sg(1) no show ?case by simp
qed

lemma shared_admissions:
  assumes "\<forall>t \<in> set (tokens (tokenManager lb)). enabled t \<longrightarrow> token t = s"
    and "\<exists>t \<in> set (tokens (tokenManager lb)). enabled t"
    and "getTokenUsage (concurrencyManager lb) s = Some u" and "current u + int n = max_usage u"
  shows "admissions lb (replicate (n + k) GetToken) = replicate n s"
  using assms
proof (induction n arbitrary: lb u)
  case 0
  then show ?case using shared_admissions_full [of lb s u k] by simp
next
  case (Suc n)
  from Suc.prems(3,4) have yes: "canUseToken (concurrencyManager lb) s"
    by (simp add: canUseToken_getTokenUsage)
  note sg = shared_getToken [OF Suc.prems(1,2)]
  let ?lb1 = "snd (getToken lb)"
  let ?u1 = "u\<lparr>current := current u + 1\<rparr>"
  have u1: "getTokenUsage (concurrencyManager ?lb1) s = Some ?u1"
    using sg(2) yes Suc.prems(3) by (simp add: getTokenUsage_incrementUsage)
  have "admissions ?lb1 (replicate (n + k) GetToken) = replicate n s"
    using Suc.IH [of ?lb1 ?u1] Suc.prems(1,2,4) sg(3) u1 by simp
  with sg(1) yes show ?case by simp
qed

text \<open>
  Claim C10. The admission map is keyed by the secret string. \<^verbatim>\<open>initialize\<close> over two
  credentials with equal secrets leaves one entry, which
  \<^verbatim>\<open>getAvailableTokensCount\<close> counts once; and with both credentials enabled, however many
  \<^verbatim>\<open>getToken\<close> calls are made from any cursor position, exactly as many are admitted as
  the budget of that one entry allows.
\<close>

theorem shared_secret_shares_budget:
  assumes "token t1 = token t2"
  shows "tokenUsage (initialize cm [t1, t2]) =
           [(token t1, \<lparr>current = 0, max_usage = maxConcurrentPerToken cm\<rparr>)] \<and>
         getAvailableTokensCount (initialize cm [t1, t2]) =
           (if 0 < maxConcurrentPerToken cm then 1 else 0) \<and>
         (enabled t1 \<and> enabled t2 \<and> 0 \<le> maxConcurrentPerToken cm \<longrightarrow>
            admissions \<lparr>tokenManager = \<lparr>tokens = [t1, t2], tokenIndex = i\<rparr>,
                        concurrencyManager = initialize cm [t1, t2]\<rparr>
              (replicate (nat (maxConcurrentPerToken cm) + k) GetToken) =
            replicate (nat (maxConcurrentPerToken cm)) (token t1))"
proof -
  let ?u = "\<lparr>current = 0, max_usage = maxConcurrentPerToken cm\<rparr>"
  have init: "tokenUsage (initialize cm [t1, t2]) = [(token t1, ?u)]"
    using assms by (simp add: initialize_def)
  then have avail: "getAvailableTokensCount (initialize cm [t1, t2]) =
           (if 0 < maxConcurrentPerToken cm then 1 else 0)"
    by (simp add: getAvailableTokensCount_def)
  have "admissions \<lparr>tokenManager = \<lparr>tokens = [t1, t2], tokenIndex = i\<rparr>,
                        concurrencyManager = initialize cm [t1, t2]\<rparr>
              (replicate (nat (maxConcurrentPerToken cm) + k) GetToken) =
            replicate (nat (maxConcurrentPerToken cm)) (token t1)"
    if en: "enabled t1" "enabled t2" and nn: "0 \<le> maxConcurrentPerToken cm"
  proof (rule shared_admissions)
    show "\<forall>t \<in> set (tokens (tokenManager \<lparr>tokenManager = \<lparr>tokens = [t1, t2], tokenIndex = i\<rparr>,
                        concurrencyManager = initialize cm [t1, t2]\<rparr>)). enabled t \<longrightarrow> token t = token t1"
      using assms by simp
    show "\<exists>t \<in> set (tokens (tokenManager \<lparr>tokenManager = \<lparr>tokens = [t1, t2], tokenIndex = i\<rparr>,
                        concurrencyManager = initialize cm [t1, t2]\<rparr>)). enabled t"
      using en by simp
    show "getTokenUsage (concurrencyManager \<lparr>tokenManager = \<lparr>tokens = [t1, t2], tokenIndex = i\<rparr>,
                        concurrencyManager = initialize cm [t1, t2]\<rparr>) (token t1) = Some ?u"
      by (simp add: getTokenUsage_def init)
    show "current ?u + int (nat (maxConcurrentPerToken cm)) = max_usage ?u"
      using nn by simp
  qed
  with init avail show ?thesis by simp
qed

text \<open>
  Claim C10, on two enabled credentials with the secret \<open>s\<close> and the default budget 3:
  five \<^verbatim>\<open>getToken\<close> calls admit three times.
\<close>

theorem shared_secret_shares_budget_witness:
  "token (mk_token 1 ''s'' True) = token (mk_token 2 ''s'' True) \<and>
   enabled (mk_token 1 ''s'' True) \<and> enabled (mk_token 2 ''s'' True) \<and>
   0 \<le> maxConcurrentPerToken new_ConcurrencyManager \<and>
   getAvailableTokensCount (initialize new_ConcurrencyManager [mk_token 1 ''s'' True, mk_token 2 ''s'' True]) = 1 \<and>
   admissions \<lparr>tokenManager = \<lparr>tokens = [mk_token 1 ''s'' True, mk_token 2 ''s'' True], tokenIndex = 0\<rparr>,
               concurrencyManager = initialize new_ConcurrencyManager [mk_token 1 ''s'' True, mk_token 2 ''s'' True]\<rparr>
     (replicate (nat (maxConcurrentPerToken new_ConcurrencyManager) + 2) GetToken) = [''s'', ''s'', ''s'']"
proof -
  have h: "token (mk_token 1 ''s'' True) = token (mk_token 2 ''s'' True)" by (simp add: mk_token_def)
  have e: "enabled (mk_token 1 ''s'' True) \<and> enabled (mk_token 2 ''s'' True) \<and>
           0 \<le> maxConcurrentPerToken new_ConcurrencyManager"
    by (simp add: mk_token_def new_ConcurrencyManager_def)
  have three: "replicate (nat (maxConcurrentPerToken new_ConcurrencyManager)) (token (mk_token 1 ''s'' True)) = [''s'', ''s'', ''s'']"
    by (simp add: new_ConcurrencyManager_def mk_token_def numeral_3_eq_3)
  have pos: "0 < maxConcurrentPerToken new_ConcurrencyManager" by (simp add: new_ConcurrencyManager_def)
  from shared_secret_shares_budget [OF h, of new_ConcurrencyManager 0 2] e three pos h
  show ?thesis by simp
qed

section \<open>Properties of the file cache\<close>

lemma length_delete_present:
  "distinct (map fst xs) \<Longrightarrow> k \<in> fst ` set xs \<Longrightarrow> Suc (length (AList.delete k xs)) = length xs"
proof (induction xs)
  case Nil
  then show ?case by simp
next
  case (Cons x xs)
  show ?case
  proof (cases "fst x = k")
    case True
    with Cons.prems(1) have "k \<notin> fst ` set xs" by auto
    then have "AList.delete k xs = xs" by (rule AList.delete_id)
    with True show ?thesis by (simp add: AList.delete_simps)
  next
    case False
    with Cons show ?thesis by (auto simp: AList.delete_simps)
  qed
qed

lemma get_cache_expired:
  assumes "cacheEnabled cfg" "\<not> isDenoDeploy (cache w)"
    and "map_of (cacheMap (cache w)) key = Some e" and "now - timestamp e > cacheTimeout cfg * 1000"
  shows "get_cache cfg now key w =
           (None, w\<lparr>cache := (cache w)\<lparr>cacheMap := AList.delete key (cacheMap (cache w))\<rparr>,
                    files := AList.delete (path e) (files w)\<rparr>)"
  using assms by (simp add: get_cache_def)

lemma set_cache_enabled:
  assumes "cacheEnabled cfg" "\<not> isDenoDeploy (cache w)"
    and "set_cache cfg cwd n1 n2 key u data w = Inr (p, w1)"
  shows "map_of (cacheMap (cache w1)) key = Some \<lparr>path = p, url = u, timestamp = n2, accessCount = 1\<rparr>"
    and "map_of (files w1) p = Some data"
    and "isDenoDeploy (cache w1) = isDenoDeploy (cache w)"
  using assms by (auto simp: set_cache_def Let_def AList.update_conv' split: if_splits)

text \<open>
  Claim C7. With caching enabled, that is with the guard
  \<^verbatim>\<open>!config.cacheEnabled || this.isDenoDeploy\<close> of \<^verbatim>\<open>get\<close> and \<^verbatim>\<open>set\<close> false: when
  \<^verbatim>\<open>set(key, url, data)\<close> returns a path, a \<^verbatim>\<open>get(key)\<close> that follows before more than
  the timeout has passed returns that same path; and a \<^verbatim>\<open>get(key)\<close> made when more than
  the timeout has passed since the timestamp of the entry returns \<^verbatim>\<open>null\<close> and removes the
  entry, so that the entry count of the statistics is one less.
\<close>

theorem cache_set_get_ttl:
  assumes "cacheEnabled cfg" and "\<not> isDenoDeploy (cache w)"
  shows "(set_cache cfg cwd nowName nowStamp key u data w = Inr (p, w1) \<and>
            now - nowStamp \<le> cacheTimeout cfg * 1000 \<longrightarrow>
          fst (get_cache cfg now key w1) = Some p) \<and>
         (map_of (cacheMap (cache w)) key = Some e \<and> now - timestamp e > cacheTimeout cfg * 1000 \<longrightarrow>
          fst (get_cache cfg now key w) = None \<and>
          key \<notin> set (map fst (cacheMap (cache (snd (get_cache cfg now key w))))) \<and>
          (distinct (map fst (cacheMap (cache w))) \<longrightarrow>
             stats_entries (getCacheStats cfg (cache (snd (get_cache cfg now key w)))) + 1 =
             stats_entries (getCacheStats cfg (cache w))))"
proof -
  have hit: "fst (get_cache cfg now key w1) = Some p"
    if s: "set_cache cfg cwd nowName nowStamp key u data w = Inr (p, w1)"
      and fresh: "now - nowStamp \<le> cacheTimeout cfg * 1000"
  proof -
    note facts = set_cache_enabled [OF assms s]
    from facts assms(1,2) fresh show ?thesis
      by (simp add: get_cache_def Let_def)
  qed
  have miss: "fst (get_cache cfg now key w) = None \<and>
          key \<notin> set (map fst (cacheMap (cache (snd (get_cache cfg now key w))))) \<and>
          (distinct (map fst (cacheMap (cache w))) \<longrightarrow>
             stats_entries (getCacheStats cfg (cache (snd (get_cache cfg now key w)))) + 1 =
             stats_entries (getCacheStats cfg (cache w)))"
    if e: "map_of (cacheMap (cache w)) key = Some e"
      and old: "now - timestamp e > cacheTimeout cfg * 1000"
  proof -
    note g = get_cache_expired [OF assms e old]
    from e have mem: "key \<in> set (map fst (cacheMap (cache w)))"
      by (metis map_of_eq_None_iff option.distinct(1) set_map)
    have gone: "key \<notin> set (map fst (AList.delete key (cacheMap (cache w))))"
      using AList.delete_notin_dom [of key "cacheMap (cache w)"] by simp
    from g gone mem show ?thesis
      by (simp add: getCacheStats_def length_delete_present)
  qed
  from hit miss show ?thesis by blast
qed

lemma set_on_empty_world:
  "set_cache cache_on ''/app'' 7 1000 ''k'' ''u'' [1, 2] empty_world = Inr (''/app/cache/k_7'', one_entry_world)"
  by code_simp

text \<open>
  Claim C7, on an empty cache with a timeout of 3600 seconds: the path stored at time
  1000 is read back at time 1000, and at time 3601001 the read misses and the count is 0.
\<close>

theorem cache_set_get_ttl_witness:
  "cacheEnabled cache_on \<and> \<not> isDenoDeploy (cache empty_world) \<and>
   set_cache cache_on ''/app'' 7 1000 ''k'' ''u'' [1, 2] empty_world = Inr (''/app/cache/k_7'', one_entry_world) \<and>
   (1000::int) - 1000 \<le> cacheTimeout cache_on * 1000 \<and>
   fst (get_cache cache_on 1000 ''k'' one_entry_world) = Some ''/app/cache/k_7'' \<and>
   cacheEnabled cache_on \<and> \<not> isDenoDeploy (cache one_entry_world) \<and>
   map_of (cacheMap (cache one_entry_world)) ''k'' =
     Some \<lparr>path = ''/app/cache/k_7'', url = ''u'', timestamp = 1000, accessCount = 1\<rparr> \<and>
   3601001 - timestamp \<lparr>path = ''/app/cache/k_7'', url = ''u'', timestamp = 1000, accessCount = 1\<rparr>
     > cacheTimeout cache_on * 1000 \<and>
   distinct (map fst (cacheMap (cache one_entry_world))) \<and>
   fst (get_cache cache_on 3601001 ''k'' one_entry_world) = None \<and>
   stats_entries (getCacheStats cache_on (cache (snd (get_cache cache_on 3601001 ''k'' one_entry_world)))) = 0"
proof -
  have on: "cacheEnabled cache_on" by (simp add: cache_on_def)
  have nd0: "\<not> isDenoDeploy (cache empty_world)" by (simp add: empty_world_def)
  have nd1: "\<not> isDenoDeploy (cache one_entry_world)" by (simp add: one_entry_world_def)
  have fresh: "(1000::int) - 1000 \<le> cacheTimeout cache_on * 1000" by (simp add: cache_on_def)
  have e: "map_of (cacheMap (cache one_entry_world)) ''k'' =
     Some \<lparr>path = ''/app/cache/k_7'', url = ''u'', timestamp = 1000, accessCount = 1\<rparr>"
    by (simp add: one_entry_world_def)
  have old: "3601001 - timestamp \<lparr>path = ''/app/cache/k_7'', url = ''u'', timestamp = 1000, accessCount = 1\<rparr>
     > cacheTimeout cache_on * 1000"
    by (simp add: cache_on_def)
  have d: "distinct (map fst (cacheMap (cache one_entry_world)))" by (simp add: one_entry_world_def)
  have n: "stats_entries (getCacheStats cache_on (cache one_entry_world)) = 1"
    by (simp add: getCacheStats_def one_entry_world_def)
  from cache_set_get_ttl [OF on nd0, of "''/app''" 7 1000 "''k''" "''u''" "[1, 2]" "''/app/cache/k_7''" one_entry_world 1000]
    set_on_empty_world fresh
  have hit: "fst (get_cache cache_on 1000 ''k'' one_entry_world) = Some ''/app/cache/k_7''" by blast
  from cache_set_get_ttl [OF on nd1, of _ _ _ "''k''" _ _ _ _ 3601001
      "\<lparr>path = ''/app/cache/k_7'', url = ''u'', timestamp = 1000, accessCount = 1\<rparr>"] e old d
  have miss: "fst (get_cache cache_on 3601001 ''k'' one_entry_world) = None"
    and cnt: "stats_entries (getCacheStats cache_on (cache (snd (get_cache cache_on 3601001 ''k'' one_entry_world)))) + 1 =
             stats_entries (getCacheStats cache_on (cache one_entry_world))"
    by blast+
  from cnt n have zero: "stats_entries (getCacheStats cache_on (cache (snd (get_cache cache_on 3601001 ''k'' one_entry_world)))) = 0"
    by simp
  from on nd0 nd1 set_on_empty_world fresh hit e old d miss zero show ?thesis by blast
qed

text \<open>
  Claim C8, as stated, fails. \<^verbatim>\<open>CacheEntry\<close> has no field for the time of the last
  access, and a successful read leaves \<^verbatim>\<open>timestamp\<close>, the creation time, alone: a read at
  time 5000 of an entry created at 1000 returns the path and only raises \<^verbatim>\<open>accessCount\<close>,
  and a read at time 6000 instead gives the very same result.
\<close>

theorem successful_get_counterexample:
  "get_cache cache_on 5000 ''k'' one_entry_world =
     (Some ''/app/cache/k_7'',
      \<lparr>cache = \<lparr>cacheMap = [(''k'', \<lparr>path = ''/app/cache/k_7'', url = ''u'', timestamp = 1000, accessCount = 2\<rparr>)],
                isDenoDeploy = False\<rparr>,
       files = [(''/app/cache/k_7'', [1, 2])], writable = True\<rparr>) \<and>
   get_cache cache_on 6000 ''k'' one_entry_world = get_cache cache_on 5000 ''k'' one_entry_world"
  by (simp add: get_cache_def cache_on_def one_entry_world_def Let_def)

text \<open>
  Claim C8, amended. A \<^verbatim>\<open>get(key)\<close> that returns a path returns the path of the entry
  stored under the key and increments that entry's \<^verbatim>\<open>accessCount\<close> by exactly one; the
  entry's \<^verbatim>\<open>path\<close>, \<^verbatim>\<open>url\<close> and \<^verbatim>\<open>timestamp\<close>, the entries of all other keys and the
  stored files are unchanged. No access time is recorded.
\<close>

theorem successful_get_entry:
  assumes "get_cache cfg now key w = (Some p, w1)"
  shows "\<exists>e. map_of (cacheMap (cache w)) key = Some e \<and> p = path e \<and>
             map_of (cacheMap (cache w1)) key = Some (e\<lparr>accessCount := accessCount e + 1\<rparr>) \<and>
             (\<forall>k. k \<noteq> key \<longrightarrow> map_of (cacheMap (cache w1)) k = map_of (cacheMap (cache w)) k) \<and>
             files w1 = files w"
proof -
  from assms obtain e where e: "map_of (cacheMap (cache w)) key = Some e"
    by (auto simp: get_cache_def split: if_splits option.splits)
  from assms e have "p = path e" and "w1 = w\<lparr>cache := (cache w)\<lparr>cacheMap :=
        AList.update key (e\<lparr>accessCount := accessCount e + 1\<rparr>) (cacheMap (cache w))\<rparr>\<rparr>"
    by (auto simp: get_cache_def Let_def split: if_splits)
  with e show ?thesis by (simp add: AList.update_conv')
qed

text \<open>
  Claim C8, amended, on the read at time 5000.
\<close>

theorem successful_get_entry_witness:
  "get_cache cache_on 5000 ''k'' one_entry_world =
     (Some ''/app/cache/k_7'',
      \<lparr>cache = \<lparr>cacheMap = [(''k'', \<lparr>path = ''/app/cache/k_7'', url = ''u'', timestamp = 1000, accessCount = 2\<rparr>)],
                isDenoDeploy = False\<rparr>,
       files = [(''/app/cache/k_7'', [1, 2])], writable = True\<rparr>) \<and>
   (\<exists>e. map_of (cacheMap (cache one_entry_world)) ''k'' = Some e \<and> ''/app/cache/k_7'' = path e \<and>
        map_of [(''k'', \<lparr>path = ''/app/cache/k_7'', url = ''u'', timestamp = 1000, accessCount = 2\<rparr>)] ''k''
          = Some (e\<lparr>accessCount := accessCount e + 1\<rparr>))"
proof -
  have g: "get_cache cache_on 5000 ''k'' one_entry_world =
     (Some ''/app/cache/k_7'',
      \<lparr>cache = \<lparr>cacheMap = [(''k'', \<lparr>path = ''/app/cache/k_7'', url = ''u'', timestamp = 1000, accessCount = 2\<rparr>)],
                isDenoDeploy = False\<rparr>,
       files = [(''/app/cache/k_7'', [1, 2])], writable = True\<rparr>)"
    by (simp add: get_cache_def cache_on_def one_entry_world_def Let_def)
  from successful_get_entry [OF g] obtain e where
    e: "map_of (cacheMap (cache one_entry_world)) ''k'' = Some e" "''/app/cache/k_7'' = path e"
       "map_of (cacheMap (cache \<lparr>cache = \<lparr>cacheMap = [(''k'', \<lparr>path = ''/app/cache/k_7'', url = ''u'', timestamp = 1000, accessCount = 2\<rparr>)],
                isDenoDeploy = False\<rparr>,
       files = [(''/app/cache/k_7'', [1, 2])], writable = True\<rparr>)) ''k'' = Some (e\<lparr>accessCount := accessCount e + 1\<rparr>)"
    by blast
  from e(3) have "map_of [(''k'', \<lparr>path = ''/app/cache/k_7'', url = ''u'', timestamp = 1000, accessCount = 2\<rparr>)] ''k''
          = Some (e\<lparr>accessCount := accessCount e + 1\<rparr>)"
    by simp
  with e(1,2) g show ?thesis by blast
qed

section \<open>Properties of the request handler\<close>

text \<open>
  On every path the handler appends one log row, and it calls \<^verbatim>\<open>releaseToken\<close> once
  with the string \<^verbatim>\<open>getToken\<close> returned when that string is truthy, and not at all
  otherwise.
\<close>

lemma logs_run_task: "logs (try_db (run_task env c req rid tok parsed ty db)) = logs db"
  by (simp add: run_task_def Let_def addTask_def updateTaskStatus_def split: sum.splits)

lemma logs_try_block: "logs (try_db (try_block env c req rid tokenUsed db)) = logs db"
  by (simp add: try_block_def logs_run_task split: option.splits sum.splits)

lemma handler_finalizer:
  "length (logs (out_db (handleChatCompletion env c req rid lb db))) = Suc (length (logs db)) \<and>
   out_tokenUsed (handleChatCompletion env c req rid lb db) = fst (getToken lb) \<and>
   out_releaseCalls (handleChatCompletion env c req rid lb db) =
     (case fst (getToken lb) of None \<Rightarrow> [] | Some tok \<Rightarrow> if tok = [] then [] else [tok])"
  by (simp add: handleChatCompletion_def Let_def addLog_def logs_try_block truthy_def split: option.splits)

lemma getToken_empty_secret_pool:
  "getToken empty_secret_pool =
     (Some [], \<lparr>tokenManager = \<lparr>tokens = [mk_token 1 [] True], tokenIndex = 0\<rparr>,
                concurrencyManager = \<lparr>tokenUsage = [([], \<lparr>current = 1, max_usage = 3\<rparr>)], maxConcurrentPerToken = 3\<rparr>\<rparr>)"
  by (simp add: empty_secret_pool_def getToken_def getTokens_def getNextToken_def mk_token_def
      initialize_def new_ConcurrencyManager_def canUseToken_def incrementUsage_def)

text \<open>
  Claim C1 does not hold on a pool whose enabled credential has the empty string as its
  secret. \<^verbatim>\<open>getToken\<close> admits the credential and returns \<^verbatim>\<open>""\<close>, with its counter raised to
  1. The handler's \<^verbatim>\<open>if (!tokenUsed)\<close> takes the empty string for \<^verbatim>\<open>null\<close> and throws
  "No available tokens", and \<^verbatim>\<open>if (tokenUsed)\<close> in \<^verbatim>\<open>finally\<close> skips \<^verbatim>\<open>releaseToken\<close>:
  the credential that was acquired is never released, and its counter stays at 1 after the
  request. One log row is still written.
\<close>

theorem handleChatCompletion_empty_secret_leak:
  "out_tokenUsed (handleChatCompletion example_env Drain example_request ''req_1'' empty_secret_pool \<lparr>tasks = [], logs = []\<rparr>) = Some [] \<and>
   out_releaseCalls (handleChatCompletion example_env Drain example_request ''req_1'' empty_secret_pool \<lparr>tasks = [], logs = []\<rparr>) = [] \<and>
   getTokenUsage (concurrencyManager (out_lb (handleChatCompletion example_env Drain example_request ''req_1'' empty_secret_pool \<lparr>tasks = [], logs = []\<rparr>))) []
     = Some \<lparr>current = 1, max_usage = 3\<rparr> \<and>
   map log_error (logs (out_db (handleChatCompletion example_env Drain example_request ''req_1'' empty_secret_pool \<lparr>tasks = [], logs = []\<rparr>)))
     = [Some ''No available tokens'']"
  by (simp add: handleChatCompletion_def Let_def getToken_empty_secret_pool truthy_def try_block_def
      addLog_def getTokenUsage_def)

end
